theory Spec2Isabelle
  imports Complex_Main
begin

section \<open>The translation client: task progress and block synchronisation\<close>

text \<open>
  A shallow embedding of the polling version of the client (the first program of
  \<^verbatim>\<open>src/unnamed/part_000\<close>): the module variables, the elements of the page the code
  writes to, the browser's timers and the requests in flight, as one state record.

  The code is event driven. An \<^verbatim>\<open>async\<close> function runs up to its \<^verbatim>\<open>await\<close> of a
  request and is resumed when the answer arrives, on the state of that later moment; timer
  callbacks and click handlers run in between. A handler is therefore two functions here:
  the part before the request (which records the request and what remains to be done), and
  \<open>resume\<close>, the part after it. One event of the page is one \<open>step\<close>.

  Assumed of the page, which is not among the sources: every element the code looks up
  exists. Assumed of the backend, as its contract says: a successful answer has the shape
  the request asks for. JavaScript numbers are modelled as reals with the three non-finite
  values beside them. The settings form only writes its own hint and is left out.
\<close>

subsection \<open>Values\<close>

datatype jsnum = Num real | PosInf | NegInf | NaN

text \<open>A block and a task as the backend sends them. The field \<^verbatim>\<open>id\<close> of a block is
  \<open>block_id\<close> here; \<^verbatim>\<open>status\<close> and \<^verbatim>\<open>error\<close> of a task are \<open>task_status\<close> and
  \<open>task_error\<close>. A field that may be null or missing is an option.\<close>

record block =
  block_id :: string
  order_no :: int
  status :: string
  source_text :: "string option"
  translated_text :: "string option"

record task_info =
  progress :: "jsnum option"
  task_status :: "string option"
  task_error :: "string option"

record created =
  task_id :: string
  blocks :: int

text \<open>A failed request: \<^verbatim>\<open>fetch\<close> rejects (a \<^verbatim>\<open>TypeError\<close> with a message), or the
  answer is not 2xx and the helper throws \<^verbatim>\<open>new Error(await r.text())\<close>.\<close>

datatype fetch_failure = NetworkError string | NonOk string

datatype payload =
    TaskInfo task_info
  | Blocks "block list"
  | Created created
  | Json string
  | Blob

datatype request =
    GetTask string
  | GetBlocks string
  | PostTasks string string
  | PostRunTranslate string
  | PatchBlock string string string
  | GetExport string

text \<open>Who awaits a \<^verbatim>\<open>refreshBlocks\<close>: the block timer, the delayed call after
  \<^verbatim>\<open>finished\<close>, the load button or the save button.\<close>

datatype caller = FromTick | FromFinal | FromLoad | FromSave

datatype cont =
    KPollTask
  | KRefresh bool caller
  | KCreate
  | KRun
  | KSave
  | KExport

datatype callback = PollTaskCb | PollBlocksCb | FinalRefreshCb

datatype timer = Interval callback nat | Timeout callback nat

record item =
  label :: string
  captured :: block

datatype elem = TaskHint | ProgressHint | ProgressCounts | BlockHint

record state =
  currentTaskId :: "string option"
  currentBlockId :: "string option"
  pollTaskTimer :: "nat option"
  pollBlocksTimer :: "nat option"
  blocksLoaded :: bool
  blocksCache :: "block list"
  progressBar :: real
  progressPct :: string
  progressStatus :: string
  progressHint :: string
  progressCounts :: string
  blockList :: "item list"
  srcText :: string
  dstText :: string
  blockHint :: string
  taskHint :: string
  activeElement :: "string option"
  timers :: "(nat \<times> timer) list"
  nextTimer :: nat
  requests :: "request list"
  pending :: "(nat \<times> cont) list"
  downloads :: nat

subsection \<open>JavaScript coercions and formatting\<close>

text \<open>\<^verbatim>\<open>if (x)\<close> on a string or null: null and the empty string are falsy.\<close>

fun truthy :: "string option \<Rightarrow> bool" where
  "truthy None = False"
| "truthy (Some v) = (v \<noteq> [])"

text \<open>\<^verbatim>\<open>if (timer)\<close> on a timer id or null: null and 0 are falsy.\<close>

fun truthy_id :: "nat option \<Rightarrow> bool" where
  "truthy_id None = False"
| "truthy_id (Some i) = (i \<noteq> 0)"

text \<open>\<^verbatim>\<open>x || ""\<close> and \<^verbatim>\<open>x ?? ""\<close> on a string or null.\<close>

fun or_empty :: "string option \<Rightarrow> string" where
  "or_empty None = []"
| "or_empty (Some v) = v"

text \<open>\<^verbatim>\<open>t.progress ?? 0\<close>\<close>

fun or_zero :: "jsnum option \<Rightarrow> jsnum" where
  "or_zero None = Num 0"
| "or_zero (Some p) = p"

definition digit_char :: "nat \<Rightarrow> char" where
  "digit_char d = ''0123456789'' ! d"

fun show_nat :: "nat \<Rightarrow> string" where
  "show_nat n = (if n < 10 then [digit_char n] else show_nat (n div 10) @ [digit_char (n mod 10)])"

declare show_nat.simps [simp del]

definition show_int :: "int \<Rightarrow> string" where
  "show_int i = (if i < 0 then CHR ''-'' # show_nat (nat (- i)) else show_nat (nat i))"

text \<open>\<^verbatim>\<open>String(e?.message || e)\<close> for the two errors a request can throw.\<close>

fun err_text :: "fetch_failure \<Rightarrow> string" where
  "err_text (NetworkError m) = (if m = [] then ''TypeError'' else m)"
| "err_text (NonOk m) = (if m = [] then ''Error'' else m)"

text \<open>The white space \<^verbatim>\<open>\s\<close> matches among the 8-bit characters.\<close>

definition is_space :: "char \<Rightarrow> bool" where
  "is_space c = (c \<in> set [CHR 0x09, CHR 0x0A, CHR 0x0B, CHR 0x0C, CHR 0x0D, CHR 0x20])"

text \<open>\<^verbatim>\<open>.replace(/\s+/g, " ")\<close>\<close>

function collapse_ws :: "string \<Rightarrow> string" where
  "collapse_ws [] = []"
| "collapse_ws (c # cs) =
     (if is_space c then CHR 0x20 # collapse_ws (dropWhile is_space cs)
      else c # collapse_ws cs)"
  by pat_completeness auto
termination
  by (relation "measure length") (auto simp: length_dropWhile_le less_Suc_eq_le)

subsection \<open>The page\<close>

text \<open>\<^verbatim>\<open>setText\<close> (lines 49-52) and \<^verbatim>\<open>setProgress\<close> (lines 54-63).\<close>

fun setText :: "elem \<Rightarrow> string \<Rightarrow> state \<Rightarrow> state" where
  "setText TaskHint v s = s\<lparr>taskHint := v\<rparr>"
| "setText ProgressHint v s = s\<lparr>progressHint := v\<rparr>"
| "setText ProgressCounts v s = s\<lparr>progressCounts := v\<rparr>"
| "setText BlockHint v s = s\<lparr>blockHint := v\<rparr>"

text \<open>\<^verbatim>\<open>Math.max(0, Math.min(1, Number.isFinite(p) ? p : 0))\<close>\<close>

fun progress_val :: "jsnum \<Rightarrow> real" where
  "progress_val (Num r) = max 0 (min 1 r)"
| "progress_val PosInf = max 0 (min 1 0)"
| "progress_val NegInf = max 0 (min 1 0)"
| "progress_val NaN = max 0 (min 1 0)"

text \<open>The label \<^verbatim>\<open>Math.round(val * 100)\<close> and a percent sign, the product taken in the reals (the code rounds the
  binary64 product; the two agree at 0 and 1, the values the properties below use).\<close>

definition pct_text :: "real \<Rightarrow> string" where
  "pct_text v = show_nat (nat (round (v * 100))) @ ''%''"

definition setProgress :: "jsnum \<Rightarrow> string \<Rightarrow> state \<Rightarrow> state" where
  "setProgress p st s =
     (let v = progress_val p in
      s\<lparr>progressBar := v,
        progressPct := pct_text v,
        progressStatus := (if st \<noteq> [] then ''Status: '' @ st else [])\<rparr>)"

subsection \<open>Timers and requests\<close>

text \<open>The browser gives every timer a fresh positive id; \<^verbatim>\<open>setInterval\<close> and
  \<^verbatim>\<open>setTimeout\<close> share the ids, and \<^verbatim>\<open>clearInterval\<close> removes the timer of an id. A
  timer is kept with its callback and its delay in milliseconds.\<close>

definition setInterval :: "callback \<Rightarrow> nat \<Rightarrow> state \<Rightarrow> nat \<times> state" where
  "setInterval cb ms s =
     (nextTimer s, s\<lparr>timers := timers s @ [(nextTimer s, Interval cb ms)],
                      nextTimer := Suc (nextTimer s)\<rparr>)"

definition setTimeout :: "callback \<Rightarrow> nat \<Rightarrow> state \<Rightarrow> nat \<times> state" where
  "setTimeout cb ms s =
     (nextTimer s, s\<lparr>timers := timers s @ [(nextTimer s, Timeout cb ms)],
                      nextTimer := Suc (nextTimer s)\<rparr>)"

definition clearInterval :: "nat \<Rightarrow> state \<Rightarrow> state" where
  "clearInterval i s = s\<lparr>timers := filter (\<lambda>e. fst e \<noteq> i) (timers s)\<rparr>"

text \<open>Sending a request: it is numbered by its place in the log, and what the caller
  does with the answer waits under that number.\<close>

definition fetch :: "request \<Rightarrow> cont \<Rightarrow> state \<Rightarrow> state" where
  "fetch rq k s =
     s\<lparr>requests := requests s @ [rq],
       pending := pending s @ [(length (requests s), k)]\<rparr>"

subsection \<open>Polling\<close>

text \<open>\<^verbatim>\<open>stopPolling\<close> (lines 65-70) and \<^verbatim>\<open>startPolling\<close> (lines 72-107); the two
  callbacks \<^verbatim>\<open>startPolling\<close> installs are \<open>run_callback\<close> below.\<close>

definition stopPolling :: "state \<Rightarrow> state" where
  "stopPolling s =
     (let s1 = (if truthy_id (pollTaskTimer s) then clearInterval (the (pollTaskTimer s)) s else s);
          s2 = (if truthy_id (pollBlocksTimer s1) then clearInterval (the (pollBlocksTimer s1)) s1 else s1)
      in s2\<lparr>pollTaskTimer := None, pollBlocksTimer := None\<rparr>)"

definition startPolling :: "state \<Rightarrow> state" where
  "startPolling s =
     (let s0 = stopPolling s;
          (i, s1) = setInterval PollTaskCb 1000 s0;
          s2 = s1\<lparr>pollTaskTimer := Some i\<rparr>;
          (j, s3) = setInterval PollBlocksCb 2500 s2
      in s3\<lparr>pollBlocksTimer := Some j\<rparr>)"

subsection \<open>refreshBlocks\<close>

text \<open>\<^verbatim>\<open>refreshBlocks\<close> (lines 109-152). The label of an item is line 127-128.\<close>

definition item_label :: "block \<Rightarrow> string" where
  "item_label b =
     ''#'' @ show_int (order_no b) @ '' ['' @ status b @ ''] ''
       @ take 60 (collapse_ws (or_empty (source_text b)))"

definition render_item :: "block \<Rightarrow> item" where
  "render_item b = \<lparr>label = item_label b, captured = b\<rparr>"

definition is_done :: "block \<Rightarrow> bool" where
  "is_done b = (status b = ''translated'' \<or> status b = ''edited'')"

text \<open>The body of \<^verbatim>\<open>refreshBlocks\<close> after its \<^verbatim>\<open>await\<close>, on the fetched list.\<close>

definition refreshBlocks_apply :: "bool \<Rightarrow> block list \<Rightarrow> state \<Rightarrow> state" where
  "refreshBlocks_apply keepSelection bs s =
     (let s1 = s\<lparr>blocksCache := bs\<rparr>;
          total = length bs;
          done = length (filter is_done bs);
          s2 = setText ProgressCounts (''Blocks: '' @ show_nat done @ '' / '' @ show_nat total) s1;
          s3 = s2\<lparr>blockList := map render_item bs\<rparr>
      in if keepSelection \<and> truthy (currentBlockId s3) then
           (if activeElement s3 \<noteq> Some ''dstText'' then
              (case find (\<lambda>x. Some (block_id x) = currentBlockId s3) bs of
                 None \<Rightarrow> s3
               | Some b \<Rightarrow> s3\<lparr>srcText := or_empty (source_text b),
                               dstText := or_empty (translated_text b)\<rparr>)
            else s3)
         else s3)"

text \<open>What the caller of \<^verbatim>\<open>refreshBlocks\<close> does once it has returned normally: only
  the load button goes on.\<close>

definition after_refresh :: "caller \<Rightarrow> state \<Rightarrow> state" where
  "after_refresh c s =
     (case c of
        FromLoad \<Rightarrow>
          startPolling (setText BlockHint (''Loaded blocks: '' @ show_nat (length (blocksCache s))) s)
      | _ \<Rightarrow> s)"

text \<open>What the caller does when \<^verbatim>\<open>refreshBlocks\<close> throws: the two timer paths ignore it,
  the two buttons show it.\<close>

definition refresh_failed :: "caller \<Rightarrow> fetch_failure \<Rightarrow> state \<Rightarrow> state" where
  "refresh_failed c e s =
     (case c of
        FromTick \<Rightarrow> s
      | FromFinal \<Rightarrow> s
      | FromLoad \<Rightarrow> setText BlockHint (err_text e) s
      | FromSave \<Rightarrow> setText BlockHint (err_text e) s)"

text \<open>\<^verbatim>\<open>refreshBlocks(keepSelection)\<close> up to its \<^verbatim>\<open>await\<close>: without a task it returns at
  once, otherwise the block list is requested.\<close>

definition refreshBlocks :: "bool \<Rightarrow> caller \<Rightarrow> state \<Rightarrow> state" where
  "refreshBlocks keepSelection c s =
     (if \<not> truthy (currentTaskId s) then after_refresh c s
      else fetch (GetBlocks (the (currentTaskId s))) (KRefresh keepSelection c) s)"

subsection \<open>Timer callbacks\<close>

text \<open>Up to the \<^verbatim>\<open>await\<close>: the task timer (lines 76-79), the block timer (lines 98-102)
  and the delayed call of line 86.\<close>

fun run_callback :: "callback \<Rightarrow> state \<Rightarrow> state" where
  "run_callback PollTaskCb s =
     (if \<not> truthy (currentTaskId s) then s
      else fetch (GetTask (the (currentTaskId s))) KPollTask s)"
| "run_callback PollBlocksCb s =
     (if \<not> truthy (currentTaskId s) then s
      else if \<not> blocksLoaded s then s
      else refreshBlocks True FromTick s)"
| "run_callback FinalRefreshCb s = refreshBlocks False FromFinal s"

text \<open>The task timer's callback after its \<^verbatim>\<open>await\<close>, on the fetched task.\<close>

definition pollTask_apply :: "task_info \<Rightarrow> state \<Rightarrow> state" where
  "pollTask_apply t s =
     (let s1 = setProgress (or_zero (progress t)) (or_empty (task_status t)) s;
          s2 = (if truthy (task_error t) then setText ProgressHint (''Error: '' @ the (task_error t)) s1 else s1);
          s3 = (if task_status t = Some ''finished''
                then stopPolling (snd (setTimeout FinalRefreshCb 300 s2)) else s2)
      in if task_status t = Some ''error'' then stopPolling s3 else s3)"

subsection \<open>Click handlers\<close>

text \<open>Up to the first \<^verbatim>\<open>await\<close>: upload (lines 175-198), run-translate (212-215), load
  (225-229), save (238-242), export (252-256). A \<^verbatim>\<open>throw\<close> before it goes to the
  handler's \<^verbatim>\<open>catch\<close>, which writes the message into a hint.\<close>

definition createTask_reset :: "state \<Rightarrow> state" where
  "createTask_reset s =
     (let s1 = stopPolling s;
          s2 = s1\<lparr>blocksLoaded := False, blocksCache := [], currentBlockId := None,
                  blockList := [], srcText := [], dstText := []\<rparr>;
          s3 = setText BlockHint [] s2;
          s4 = setText ProgressHint [] s3;
          s5 = setText ProgressCounts [] s4
      in setProgress (Num 0) ''created'' s5)"

definition createTask_onclick :: "string option \<Rightarrow> string \<Rightarrow> state \<Rightarrow> state" where
  "createTask_onclick f direction s =
     (case f of
        None \<Rightarrow> setText TaskHint ''Please select a .docx file.'' s
      | Some file \<Rightarrow> fetch (PostTasks file direction) KCreate (createTask_reset s))"

definition runTranslate_onclick :: "state \<Rightarrow> state" where
  "runTranslate_onclick s =
     (if \<not> truthy (currentTaskId s) then setText ProgressHint ''Please create a task first.'' s
      else fetch (PostRunTranslate (the (currentTaskId s))) KRun s)"

definition loadBlocks_onclick :: "state \<Rightarrow> state" where
  "loadBlocks_onclick s =
     (if \<not> truthy (currentTaskId s) then setText BlockHint ''Please create a task first.'' s
      else refreshBlocks False FromLoad (s\<lparr>blocksLoaded := True\<rparr>))"

definition saveBlock_onclick :: "state \<Rightarrow> state" where
  "saveBlock_onclick s =
     (if \<not> truthy (currentTaskId s) \<or> \<not> truthy (currentBlockId s)
      then setText BlockHint ''Please select a block first.'' s
      else fetch (PatchBlock (the (currentTaskId s)) (the (currentBlockId s)) (dstText s)) KSave s)"

definition exportDocx_onclick :: "state \<Rightarrow> state" where
  "exportDocx_onclick s =
     (if \<not> truthy (currentTaskId s) then setText ProgressHint ''Please create a task first.'' s
      else fetch (GetExport (the (currentTaskId s))) KExport s)"

text \<open>The click handler \<^verbatim>\<open>refreshBlocks\<close> gives each item of the list; it keeps the block
  of the snapshot it was rendered from.\<close>

definition item_onclick :: "item \<Rightarrow> state \<Rightarrow> state" where
  "item_onclick it s =
     (let b = captured it;
          s1 = s\<lparr>currentBlockId := Some (block_id b),
                 srcText := or_empty (source_text b),
                 dstText := or_empty (translated_text b)\<rparr>
      in setText BlockHint (''Selected block: '' @ block_id b) s1)"

subsection \<open>Resuming after a request\<close>

text \<open>The rest of each handler, given the failure or the answer. An answer of another
  shape than the request asks for is not an event of the model.\<close>

fun resume :: "cont \<Rightarrow> fetch_failure + payload \<Rightarrow> state \<Rightarrow> state option" where
  "resume KPollTask (Inl e) s = Some s"
| "resume KPollTask (Inr (TaskInfo t)) s = Some (pollTask_apply t s)"
| "resume (KRefresh keep c) (Inl e) s = Some (refresh_failed c e s)"
| "resume (KRefresh keep c) (Inr (Blocks bs)) s = Some (after_refresh c (refreshBlocks_apply keep bs s))"
| "resume KCreate (Inl e) s = Some (setText TaskHint (err_text e) s)"
| "resume KCreate (Inr (Created out)) s =
     (let s1 = s\<lparr>currentTaskId := Some (task_id out)\<rparr>;
          s2 = setText TaskHint (''Task created: '' @ task_id out @ [CHR 0x0A] @ ''Blocks: '' @ show_int (blocks out)) s1
      in Some (startPolling s2))"
| "resume KRun (Inl e) s = Some (setText ProgressHint (err_text e) s)"
| "resume KRun (Inr (Json out)) s = Some (startPolling (setText ProgressHint out s))"
| "resume KSave (Inl e) s = Some (setText BlockHint (err_text e) s)"
| "resume KSave (Inr (Json out)) s =
     (let s1 = setText BlockHint out s
      in Some (if blocksLoaded s1 then refreshBlocks True FromSave s1 else s1))"
| "resume KExport (Inl e) s = Some (setText ProgressHint (err_text e) s)"
| "resume KExport (Inr Blob) s =
     Some (setText ProgressHint
             ''Download started: translated.docx (check your default Downloads folder).''
             (s\<lparr>downloads := Suc (downloads s)\<rparr>))"
| "resume _ _ s = None"

subsection \<open>Events\<close>

datatype event =
    Fire nat
  | Respond nat "fetch_failure + payload"
  | ClickCreate "string option" string
  | ClickRun
  | ClickLoad
  | ClickSave
  | ClickExport
  | ClickItem nat
  | FocusEl "string option"
  | TypeDst string

text \<open>One event. Time is not measured: a timer may fire at any moment while it is set,
  and an answer may arrive at any moment after its request. A timeout is gone once it has
  fired; an answer arrives only for a request still waiting; the user types into the
  destination box only while it has the focus. Anything else is \<open>None\<close>.\<close>

fun step :: "event \<Rightarrow> state \<Rightarrow> state option" where
  "step (Fire i) s =
     (case map_of (timers s) i of
        None \<Rightarrow> None
      | Some (Interval cb ms) \<Rightarrow> Some (run_callback cb s)
      | Some (Timeout cb ms) \<Rightarrow> Some (run_callback cb (clearInterval i s)))"
| "step (Respond n r) s =
     (case map_of (pending s) n of
        None \<Rightarrow> None
      | Some k \<Rightarrow> resume k r (s\<lparr>pending := filter (\<lambda>e. fst e \<noteq> n) (pending s)\<rparr>))"
| "step (ClickCreate f d) s = Some (createTask_onclick f d s)"
| "step ClickRun s = Some (runTranslate_onclick s)"
| "step ClickLoad s = Some (loadBlocks_onclick s)"
| "step ClickSave s = Some (saveBlock_onclick s)"
| "step ClickExport s = Some (exportDocx_onclick s)"
| "step (ClickItem i) s =
     (if i < length (blockList s) then Some (item_onclick (blockList s ! i) s) else None)"
| "step (FocusEl e) s = Some (s\<lparr>activeElement := e\<rparr>)"
| "step (TypeDst v) s =
     (if activeElement s = Some ''dstText'' then Some (s\<lparr>dstText := v\<rparr>) else None)"

fun run :: "event list \<Rightarrow> state \<Rightarrow> state option" where
  "run [] s = Some s"
| "run (e # es) s = (case step e s of None \<Rightarrow> None | Some s' \<Rightarrow> run es s')"

text \<open>The state once \<^verbatim>\<open>main\<close> has set the handlers: nothing selected, no timer, the
  progress display at \<^verbatim>\<open>setProgress(0, "")\<close>.\<close>

definition init :: state where
  "init =
     setProgress (Num 0) []
       \<lparr>currentTaskId = None, currentBlockId = None, pollTaskTimer = None,
        pollBlocksTimer = None, blocksLoaded = False, blocksCache = [],
        progressBar = 0, progressPct = [], progressStatus = [], progressHint = [],
        progressCounts = [], blockList = [], srcText = [], dstText = [], blockHint = [],
        taskHint = [], activeElement = None, timers = [], nextTimer = 1, requests = [],
        pending = [], downloads = 0\<rparr>"

section \<open>Notions the properties are stated with\<close>

subsection \<open>What holds of every state the page can reach\<close>

text \<open>A timer id is held when one of the two module variables stores it. The only one-shot
  timer the code ever sets is the delayed refresh after \<^verbatim>\<open>finished\<close>.\<close>

definition held :: "state \<Rightarrow> nat \<Rightarrow> bool" where
  "held s i = (pollTaskTimer s = Some i \<or> pollBlocksTimer s = Some i)"

definition is_final :: "timer \<Rightarrow> bool" where
  "is_final t = (t = Timeout FinalRefreshCb 300)"

text \<open>The invariant of the reachable states: timer ids are positive and below the next id to
  be given out; a timer is the delayed refresh exactly when its id is not held (so every
  interval timer is held); a request that waits has a number the log already has; the
  held ids have been given out.\<close>

definition inv :: "state \<Rightarrow> bool" where
  "inv s =
     (0 < nextTimer s
      \<and> list_all (\<lambda>e. 0 < fst e \<and> fst e < nextTimer s \<and> is_final (snd e) = (\<not> held s (fst e))) (timers s)
      \<and> list_all (\<lambda>e. fst e < length (requests s)) (pending s)
      \<and> (pollTaskTimer s = None \<or> the (pollTaskTimer s) < nextTimer s)
      \<and> (pollBlocksTimer s = None \<or> the (pollBlocksTimer s) < nextTimer s))"

text \<open>The ids \<^verbatim>\<open>stopPolling\<close> passes to \<^verbatim>\<open>clearInterval\<close>.\<close>

definition cleared :: "state \<Rightarrow> nat \<Rightarrow> bool" where
  "cleared s i = ((truthy_id (pollTaskTimer s) \<and> i = the (pollTaskTimer s))
                  \<or> (truthy_id (pollBlocksTimer s) \<and> i = the (pollBlocksTimer s)))"

subsection \<open>The edit session\<close>

text \<open>Background events: a timer fires, or the answer to a request arrives. Everything else
  is the user.\<close>

definition is_background :: "event \<Rightarrow> bool" where
  "is_background e = (case e of Fire i \<Rightarrow> True | Respond n r \<Rightarrow> True | _ \<Rightarrow> False)"

text \<open>The edit session as the user sees it: both text boxes and where the focus is.\<close>

definition edit_view :: "state \<Rightarrow> string \<times> string \<times> string option" where
  "edit_view s = (srcText s, dstText s, activeElement s)"

subsection \<open>Timers over time\<close>

text \<open>From \<open>s\<close> to \<open>s'\<close> no id is given out twice: an id below the next one of
  \<open>s\<close> names in \<open>s'\<close> the timer it named in \<open>s\<close>, or none.\<close>

definition evolves :: "state \<Rightarrow> state \<Rightarrow> bool" where
  "evolves s s' =
     (nextTimer s \<le> nextTimer s'
      \<and> list_all (\<lambda>k. map_of (timers s') k = None \<or> map_of (timers s') k = map_of (timers s) k)
            [0..<nextTimer s])"

text \<open>An id that was given out and names no timer (it can never fire again), and an id that
  was given out and names no interval timer (it fires once at most).\<close>

definition gone :: "state \<Rightarrow> nat \<Rightarrow> bool" where
  "gone s k = (k < nextTimer s \<and> map_of (timers s) k = None)"

definition one_shot :: "state \<Rightarrow> nat \<Rightarrow> bool" where
  "one_shot s k =
     (k < nextTimer s
      \<and> (case map_of (timers s) k of Some (Interval cb ms) \<Rightarrow> False | _ \<Rightarrow> True))"

subsection \<open>Status polls over time\<close>

definition is_GetTask :: "request \<Rightarrow> bool" where
  "is_GetTask rq = (case rq of GetTask tid \<Rightarrow> True | _ \<Rightarrow> False)"

text \<open>How many status requests have been sent so far.\<close>

definition status_polls :: "state \<Rightarrow> nat" where
  "status_polls s = length (filter is_GetTask (requests s))"

text \<open>The events whose handler calls \<^verbatim>\<open>startPolling\<close>: the successful answer to an
  upload, to a run-translate request, or to the block list the load button asked for.\<close>

definition starts_polling :: "event \<Rightarrow> state \<Rightarrow> bool" where
  "starts_polling e s =
     (case e of
        Respond n (Inr p) \<Rightarrow>
          (case map_of (pending s) n of
             Some KCreate \<Rightarrow> True
           | Some KRun \<Rightarrow> True
           | Some (KRefresh keep FromLoad) \<Rightarrow> True
           | _ \<Rightarrow> False)
      | _ \<Rightarrow> False)"

text \<open>A sequence of events none of which starts polling again.\<close>

fun no_restart :: "event list \<Rightarrow> state \<Rightarrow> bool" where
  "no_restart [] s = True"
| "no_restart (e # es) s =
     (\<not> starts_polling e s \<and> (case step e s of None \<Rightarrow> True | Some s' \<Rightarrow> no_restart es s'))"

text \<open>No interval timer is set: every timer left is a delayed refresh.\<close>

definition idle :: "state \<Rightarrow> bool" where
  "idle s = list_all (\<lambda>e. is_final (snd e)) (timers s)"

definition calm :: "state \<Rightarrow> state \<Rightarrow> bool" where
  "calm s s' = (idle s' \<and> status_polls s' = status_polls s)"

subsection \<open>The clamp of the specification\<close>

text \<open>The specification's \<^verbatim>\<open>clamp(p, 0, 1)\<close>, written from its words and not from the code,
  and the fraction it says is displayed for a progress value: the clamp of a finite value,
  0 for the other three.\<close>

definition clamp_spec :: "real \<Rightarrow> real \<Rightarrow> real \<Rightarrow> real" where
  "clamp_spec p lo hi = (if p < lo then lo else if hi < p then hi else p)"

definition shown_fraction :: "jsnum \<Rightarrow> real" where
  "shown_fraction p = (case p of Num r \<Rightarrow> clamp_spec r 0 1 | _ \<Rightarrow> 0)"

section \<open>Example runs\<close>

text \<open>Concrete runs of the page from its initial state, used to instantiate the properties
  below. Each example state is written out and shown to be reached by its run.\<close>

definition ex_b :: block where
  "ex_b = \<lparr>block_id = ''b7'', order_no = 7, status = ''pending'',
           source_text = Some ''Hello'', translated_text = None\<rparr>"

definition ex_b_done :: block where
  "ex_b_done = \<lparr>block_id = ''b7'', order_no = 7, status = ''translated'',
           source_text = Some ''Hello'', translated_text = Some ''Bonjour''\<rparr>"

definition ex_created :: created where
  "ex_created = \<lparr>task_id = ''t1'', blocks = 1\<rparr>"

definition ex_finished :: task_info where
  "ex_finished = \<lparr>progress = Some (Num 1), task_status = Some ''finished'', task_error = None\<rparr>"

definition ex_over :: task_info where
  "ex_over = \<lparr>progress = Some (Num (3 / 2)), task_status = Some ''running'', task_error = None\<rparr>"

text \<open>A task is created, its blocks are loaded, block b7 is opened, and the block timer
  fires: its request is in flight.\<close>

definition ex_trace :: "event list" where
  "ex_trace = [ClickCreate (Some ''a.docx'') ''en-fr'', Respond 0 (Inr (Created ex_created)),
     ClickLoad, Respond 1 (Inr (Blocks [ex_b])), ClickItem 0, Fire 4]"

definition ex_polling :: state where
  "ex_polling =
     \<lparr>currentTaskId = Some ''t1'', currentBlockId = Some ''b7'',
      pollTaskTimer = Some 3, pollBlocksTimer = Some 4, blocksLoaded = True,
      blocksCache = [ex_b],
      progressBar = 0, progressPct = ''0%'', progressStatus = ''Status: created'',
      progressHint = [], progressCounts = ''Blocks: 0 / 1'',
      blockList = [\<lparr>label = ''#7 [pending] Hello'', captured = ex_b\<rparr>],
      srcText = ''Hello'', dstText = [], blockHint = ''Selected block: b7'',
      taskHint = ''Task created: t1'' @ [CHR 0x0A] @ ''Blocks: 1'', activeElement = None,
      timers = [(3, Interval PollTaskCb 1000), (4, Interval PollBlocksCb 2500)],
      nextTimer = 5,
      requests = [PostTasks ''a.docx'' ''en-fr'', GetBlocks ''t1'', GetBlocks ''t1''],
      pending = [(2, KRefresh True FromTick)], downloads = 0\<rparr>"

text \<open>The same, but the user has put the cursor in the destination box and typed before
  the timer fired.\<close>

definition ex_trace_typing :: "event list" where
  "ex_trace_typing = [ClickCreate (Some ''a.docx'') ''en-fr'', Respond 0 (Inr (Created ex_created)),
     ClickLoad, Respond 1 (Inr (Blocks [ex_b])), ClickItem 0,
     FocusEl (Some ''dstText''), TypeDst ''Bonj'', Fire 4]"

definition ex_typing :: state where
  "ex_typing = ex_polling\<lparr>dstText := ''Bonj'', activeElement := Some ''dstText''\<rparr>"

text \<open>A task is created and the task timer fires: the status request is in flight.\<close>

definition ex_trace_status :: "event list" where
  "ex_trace_status = [ClickCreate (Some ''a.docx'') ''en-fr'', Respond 0 (Inr (Created ex_created)), Fire 1]"

definition ex_status :: state where
  "ex_status =
     \<lparr>currentTaskId = Some ''t1'', currentBlockId = None,
      pollTaskTimer = Some 1, pollBlocksTimer = Some 2, blocksLoaded = False,
      blocksCache = [],
      progressBar = 0, progressPct = ''0%'', progressStatus = ''Status: created'',
      progressHint = [], progressCounts = [], blockList = [],
      srcText = [], dstText = [], blockHint = [],
      taskHint = ''Task created: t1'' @ [CHR 0x0A] @ ''Blocks: 1'', activeElement = None,
      timers = [(1, Interval PollTaskCb 1000), (2, Interval PollBlocksCb 2500)],
      nextTimer = 3,
      requests = [PostTasks ''a.docx'' ''en-fr'', GetTask ''t1''],
      pending = [(1, KPollTask)], downloads = 0\<rparr>"

text \<open>Background events in \<open>ex_typing\<close>: the block list arrives, the block timer fires again
  and is answered, the task timer fires and its request fails.\<close>

definition ex_ticks :: "event list" where
  "ex_ticks = [Respond 2 (Inr (Blocks [ex_b_done])), Fire 4, Respond 3 (Inr (Blocks [ex_b_done])),
     Fire 3, Respond 4 (Inl (NetworkError ''offline''))]"

text \<open>After the answer \<open>finished\<close>: both timers cleared, one delayed refresh pending.\<close>

definition ex_stopped :: state where
  "ex_stopped =
     ex_status\<lparr>pollTaskTimer := None, pollBlocksTimer := None,
       progressBar := 1, progressPct := ''100%'', progressStatus := ''Status: finished'',
       timers := [(3, Timeout FinalRefreshCb 300)], nextTimer := 4, pending := []\<rparr>"

text \<open>What follows in \<open>ex_stopped\<close>: the delayed refresh fires and is answered, then the user
  opens the block.\<close>

definition ex_after :: "event list" where
  "ex_after = [Fire 3, Respond 2 (Inr (Blocks [ex_b_done])), ClickItem 0]"

text \<open>A second upload is started in \<open>ex_polling\<close>, while the block timer's request is still
  in flight.\<close>

definition ex_new_upload :: event where
  "ex_new_upload = ClickCreate (Some ''b.docx'') ''en-fr''"

text \<open>The state right after the second upload has been clicked in \<open>ex_polling\<close>.\<close>

definition ex_reset :: state where
  "ex_reset =
     ex_polling\<lparr>currentBlockId := None, pollTaskTimer := None, pollBlocksTimer := None,
       blocksLoaded := False, blocksCache := [], progressCounts := [], blockList := [],
       srcText := [], blockHint := [], timers := [],
       requests := requests ex_polling @ [PostTasks ''b.docx'' ''en-fr''],
       pending := [(2, KRefresh True FromTick), (3, KCreate)]\<rparr>"

text \<open>Afterwards the old block list arrives and the upload fails.\<close>

definition ex_late :: "event list" where
  "ex_late = [Respond 2 (Inr (Blocks [ex_b_done])), Respond 3 (Inl (NonOk ''bad file''))]"

definition ex_trace_final :: "event list" where
  "ex_trace_final = [Respond 2 (Inr (Blocks [ex_b])), Fire 3, Respond 3 (Inr (TaskInfo ex_finished)), Fire 5]"

text \<open>From \<open>ex_polling\<close>: the task finishes, the delayed refresh fires, and its request is
  in flight. Block b7 is still open and nothing has the focus.\<close>

definition ex_final_wait :: state where
  "ex_final_wait =
     ex_polling\<lparr>pollTaskTimer := None, pollBlocksTimer := None,
       progressBar := 1, progressPct := ''100%'', progressStatus := ''Status: finished'',
       timers := [], nextTimer := 6,
       requests := requests ex_polling @ [GetTask ''t1'', GetBlocks ''t1''],
       pending := [(4, KRefresh False FromFinal)]\<rparr>"

section \<open>Auxiliary facts\<close>

subsection \<open>stopPolling and startPolling as state updates\<close>

lemma cleared_upd [simp]:
  "cleared (s\<lparr>currentTaskId := a0\<rparr>) = cleared s"
  "cleared (s\<lparr>currentBlockId := a1\<rparr>) = cleared s"
  "cleared (s\<lparr>blocksLoaded := a2\<rparr>) = cleared s"
  "cleared (s\<lparr>blocksCache := a3\<rparr>) = cleared s"
  "cleared (s\<lparr>progressBar := a4\<rparr>) = cleared s"
  "cleared (s\<lparr>progressPct := a5\<rparr>) = cleared s"
  "cleared (s\<lparr>progressStatus := a6\<rparr>) = cleared s"
  "cleared (s\<lparr>progressHint := a7\<rparr>) = cleared s"
  "cleared (s\<lparr>progressCounts := a8\<rparr>) = cleared s"
  "cleared (s\<lparr>blockList := a9\<rparr>) = cleared s"
  "cleared (s\<lparr>srcText := a10\<rparr>) = cleared s"
  "cleared (s\<lparr>dstText := a11\<rparr>) = cleared s"
  "cleared (s\<lparr>blockHint := a12\<rparr>) = cleared s"
  "cleared (s\<lparr>taskHint := a13\<rparr>) = cleared s"
  "cleared (s\<lparr>activeElement := a14\<rparr>) = cleared s"
  "cleared (s\<lparr>timers := a15\<rparr>) = cleared s"
  "cleared (s\<lparr>nextTimer := a16\<rparr>) = cleared s"
  "cleared (s\<lparr>requests := a17\<rparr>) = cleared s"
  "cleared (s\<lparr>pending := a18\<rparr>) = cleared s"
  "cleared (s\<lparr>downloads := a19\<rparr>) = cleared s"
  by (simp_all add: cleared_def fun_eq_iff)

lemma stopPolling_eq:
  "stopPolling s =
     s\<lparr>timers := filter (\<lambda>e. \<not> cleared s (fst e)) (timers s),
       pollTaskTimer := None, pollBlocksTimer := None\<rparr>"
proof -
  have f: "filter (\<lambda>e. fst e \<noteq> j) (filter (\<lambda>e. fst e \<noteq> i) xs) = filter (\<lambda>e. fst e \<noteq> i \<and> fst e \<noteq> j) xs"
    for i j :: nat and xs :: "(nat \<times> timer) list"
    by (induction xs) auto
  show ?thesis
  proof (cases "pollTaskTimer s")
    case None
    then show ?thesis
      by (cases "pollBlocksTimer s") (simp_all add: stopPolling_def clearInterval_def cleared_def Let_def cong: filter_cong)
  next
    case (Some i)
    then show ?thesis
      by (cases "pollBlocksTimer s") (simp_all add: stopPolling_def clearInterval_def cleared_def Let_def f cong: filter_cong)
  qed
qed

lemma startPolling_eq:
  "startPolling s =
     s\<lparr>timers := filter (\<lambda>e. \<not> cleared s (fst e)) (timers s)
                   @ [(nextTimer s, Interval PollTaskCb 1000), (Suc (nextTimer s), Interval PollBlocksCb 2500)],
       nextTimer := Suc (Suc (nextTimer s)),
       pollTaskTimer := Some (nextTimer s), pollBlocksTimer := Some (Suc (nextTimer s))\<rparr>"
  by (simp add: startPolling_def stopPolling_eq setInterval_def Let_def)

subsection \<open>The invariant is kept by every event\<close>

lemma inv_init: "inv init"
  by (simp add: inv_def init_def setProgress_def)

lemma inv_cleared:
  assumes "inv s" "e \<in> set (timers s)"
  shows "cleared s (fst e) = (\<not> is_final (snd e))"
proof -
  from assms have a: "0 < fst e" "is_final (snd e) = (\<not> held s (fst e))"
    by (simp_all add: inv_def list_all_iff)
  from a(1) have "cleared s (fst e) = held s (fst e)"
    by (cases "pollTaskTimer s"; cases "pollBlocksTimer s") (auto simp: cleared_def held_def)
  with a(2) show ?thesis by simp
qed

lemma inv_fresh:
  assumes "inv s"
  shows "\<not> cleared s (nextTimer s)" "\<not> held s (nextTimer s)"
  using assms by (auto simp: inv_def cleared_def held_def split: option.splits)

lemma stopPolling_timers:
  assumes "inv s"
  shows "timers (stopPolling s) = filter (\<lambda>e. is_final (snd e)) (timers s)"
  using inv_cleared [OF assms] by (simp add: stopPolling_eq cong: filter_cong)

lemma inv_stopPolling:
  assumes "inv s"
  shows "inv (stopPolling s)"
proof -
  have "\<forall>e \<in> set (timers s). 0 < fst e \<and> fst e < nextTimer s"
    using assms by (simp add: inv_def list_all_iff)
  moreover have "0 < nextTimer s" "\<forall>e \<in> set (pending s). fst e < length (requests s)"
    using assms by (simp_all add: inv_def list_all_iff)
  moreover have "nextTimer (stopPolling s) = nextTimer s" "pending (stopPolling s) = pending s"
    "requests (stopPolling s) = requests s" "\<And>i. \<not> held (stopPolling s) i"
    "pollTaskTimer (stopPolling s) = None" "pollBlocksTimer (stopPolling s) = None"
    by (simp_all add: stopPolling_eq held_def)
  ultimately show ?thesis
    unfolding inv_def stopPolling_timers [OF assms] by (simp add: list_all_iff)
qed

lemma inv_startPolling:
  assumes "inv s"
  shows "inv (startPolling s)"
proof -
  have t: "timers (startPolling s) = filter (\<lambda>e. is_final (snd e)) (timers s)
            @ [(nextTimer s, Interval PollTaskCb 1000), (Suc (nextTimer s), Interval PollBlocksCb 2500)]"
    using inv_cleared [OF assms] by (simp add: startPolling_eq cong: filter_cong)
  have "\<forall>e \<in> set (timers s). 0 < fst e \<and> fst e < nextTimer s"
    using assms by (simp add: inv_def list_all_iff)
  moreover have "0 < nextTimer s" "\<forall>e \<in> set (pending s). fst e < length (requests s)"
    using assms by (simp_all add: inv_def list_all_iff)
  ultimately show ?thesis
    unfolding inv_def t
    by (auto simp: startPolling_eq list_all_iff held_def is_final_def)
qed

lemma inv_upd [simp]:
  "inv (s\<lparr>currentTaskId := a1\<rparr>) = inv s"
  "inv (s\<lparr>currentBlockId := a2\<rparr>) = inv s"
  "inv (s\<lparr>blocksLoaded := a3\<rparr>) = inv s"
  "inv (s\<lparr>blocksCache := a4\<rparr>) = inv s"
  "inv (s\<lparr>progressBar := a5\<rparr>) = inv s"
  "inv (s\<lparr>progressPct := a6\<rparr>) = inv s"
  "inv (s\<lparr>progressStatus := a7\<rparr>) = inv s"
  "inv (s\<lparr>progressHint := a8\<rparr>) = inv s"
  "inv (s\<lparr>progressCounts := a9\<rparr>) = inv s"
  "inv (s\<lparr>blockList := b1\<rparr>) = inv s"
  "inv (s\<lparr>srcText := b2\<rparr>) = inv s"
  "inv (s\<lparr>dstText := b3\<rparr>) = inv s"
  "inv (s\<lparr>blockHint := b4\<rparr>) = inv s"
  "inv (s\<lparr>taskHint := b5\<rparr>) = inv s"
  "inv (s\<lparr>activeElement := b6\<rparr>) = inv s"
  "inv (s\<lparr>downloads := b7\<rparr>) = inv s"
  by (simp_all add: inv_def held_def)

lemma inv_setProgress: "inv (setProgress p st s) = inv s"
  by (simp add: setProgress_def Let_def)

lemma inv_fetch:
  assumes "inv s"
  shows "inv (fetch rq k s)"
proof -
  have "\<forall>e \<in> set (pending s). fst e < Suc (length (requests s))"
    using assms by (auto simp: inv_def list_all_iff)
  with assms show ?thesis
    by (simp add: inv_def fetch_def held_def list_all_iff)
qed

lemma inv_clearInterval:
  assumes "inv s"
  shows "inv (clearInterval i s)"
  using assms by (simp add: inv_def clearInterval_def held_def list_all_iff)

lemma inv_setTimeout:
  assumes "inv s"
  shows "inv (snd (setTimeout FinalRefreshCb 300 s))"
proof -
  have "\<forall>e \<in> set (timers s). fst e < Suc (nextTimer s)"
    using assms by (auto simp: inv_def list_all_iff)
  with assms inv_fresh(2) [OF assms] show ?thesis
    by (auto simp: inv_def setTimeout_def held_def list_all_iff is_final_def split: option.splits)
qed

lemma inv_refreshBlocks_apply: "inv (refreshBlocks_apply keep bs s) = inv s"
  by (simp add: refreshBlocks_apply_def Let_def split: option.split)

lemma inv_after_refresh: "inv s \<Longrightarrow> inv (after_refresh c s)"
  by (cases c) (simp_all add: after_refresh_def inv_startPolling)

lemma inv_refresh_failed: "inv (refresh_failed c e s) = inv s"
  by (cases c) (simp_all add: refresh_failed_def)

lemma inv_refreshBlocks: "inv s \<Longrightarrow> inv (refreshBlocks keep c s)"
  by (simp add: refreshBlocks_def inv_after_refresh inv_fetch)

lemma inv_run_callback: "inv s \<Longrightarrow> inv (run_callback cb s)"
  by (cases cb) (simp_all add: inv_refreshBlocks inv_fetch)

lemma inv_pollTask_apply: "inv s \<Longrightarrow> inv (pollTask_apply t s)"
  by (simp add: pollTask_apply_def Let_def inv_stopPolling inv_setTimeout inv_setProgress)

lemma inv_createTask_reset: "inv s \<Longrightarrow> inv (createTask_reset s)"
proof -
  assume "inv s"
  then have "inv (stopPolling s)" by (rule inv_stopPolling)
  then show ?thesis
    by (simp add: createTask_reset_def Let_def inv_setProgress)
qed

lemma inv_drop_pending: "inv s \<Longrightarrow> inv (s\<lparr>pending := filter P (pending s)\<rparr>)"
  by (simp add: inv_def held_def list_all_iff)

lemma inv_resume:
  assumes "inv s" "resume k r s = Some s'"
  shows "inv s'"
proof (cases r)
  case (Inl e)
  with assms show ?thesis
    by (cases k) (auto simp: inv_refresh_failed)
next
  case (Inr p)
  with assms show ?thesis
    by (cases k; cases p)
       (auto simp: inv_pollTask_apply inv_after_refresh inv_refreshBlocks_apply inv_startPolling
          inv_refreshBlocks Let_def)
qed

lemma inv_step:
  assumes "inv s" "step e s = Some s'"
  shows "inv s'"
proof (cases e)
  case (Fire i)
  with assms show ?thesis
    by (auto simp: inv_run_callback inv_clearInterval split: option.splits timer.splits)
next
  case (Respond n r)
  with assms show ?thesis
    by (auto split: option.splits intro: inv_resume [OF inv_drop_pending])
next
  case (ClickCreate f d)
  with assms show ?thesis
    by (auto simp: createTask_onclick_def inv_fetch inv_createTask_reset split: option.splits)
next
  case ClickRun
  with assms show ?thesis by (auto simp: runTranslate_onclick_def inv_fetch)
next
  case ClickLoad
  with assms show ?thesis
    by (auto simp: loadBlocks_onclick_def  intro!: inv_refreshBlocks)
next
  case ClickSave
  with assms show ?thesis by (auto simp: saveBlock_onclick_def inv_fetch)
next
  case ClickExport
  with assms show ?thesis by (auto simp: exportDocx_onclick_def inv_fetch)
next
  case (ClickItem i)
  with assms show ?thesis
    by (auto simp: item_onclick_def Let_def  split: if_splits)
next
  case (FocusEl x)
  with assms show ?thesis by auto
next
  case (TypeDst v)
  with assms show ?thesis by (auto split: if_splits)
qed

lemma inv_run: "inv s \<Longrightarrow> run es s = Some s' \<Longrightarrow> inv s'"
  by (induction es arbitrary: s) (auto split: option.splits dest: inv_step)

subsection \<open>What leaves the edit session alone\<close>

lemma edit_view_upd [simp]:
  "edit_view (s\<lparr>currentTaskId := a1\<rparr>) = edit_view s"
  "edit_view (s\<lparr>currentBlockId := a2\<rparr>) = edit_view s"
  "edit_view (s\<lparr>blocksLoaded := a3\<rparr>) = edit_view s"
  "edit_view (s\<lparr>blocksCache := a4\<rparr>) = edit_view s"
  "edit_view (s\<lparr>progressBar := a5\<rparr>) = edit_view s"
  "edit_view (s\<lparr>progressPct := a6\<rparr>) = edit_view s"
  "edit_view (s\<lparr>progressStatus := a7\<rparr>) = edit_view s"
  "edit_view (s\<lparr>progressHint := a8\<rparr>) = edit_view s"
  "edit_view (s\<lparr>progressCounts := a9\<rparr>) = edit_view s"
  "edit_view (s\<lparr>blockList := b1\<rparr>) = edit_view s"
  "edit_view (s\<lparr>blockHint := b4\<rparr>) = edit_view s"
  "edit_view (s\<lparr>taskHint := b5\<rparr>) = edit_view s"
  "edit_view (s\<lparr>downloads := b7\<rparr>) = edit_view s"
  "edit_view (s\<lparr>timers := c1\<rparr>) = edit_view s"
  "edit_view (s\<lparr>nextTimer := c2\<rparr>) = edit_view s"
  "edit_view (s\<lparr>requests := c3\<rparr>) = edit_view s"
  "edit_view (s\<lparr>pending := c4\<rparr>) = edit_view s"
  "edit_view (s\<lparr>pollTaskTimer := c5\<rparr>) = edit_view s"
  "edit_view (s\<lparr>pollBlocksTimer := c6\<rparr>) = edit_view s"
  by (simp_all add: edit_view_def)

lemma edit_view_setText [simp]: "edit_view (setText el v s) = edit_view s"
  by (cases el) simp_all

lemma edit_view_setProgress [simp]: "edit_view (setProgress p st s) = edit_view s"
  by (simp add: setProgress_def Let_def)

lemma edit_view_stopPolling [simp]: "edit_view (stopPolling s) = edit_view s"
  by (simp add: stopPolling_eq)

lemma edit_view_startPolling [simp]: "edit_view (startPolling s) = edit_view s"
  by (simp add: startPolling_eq)

lemma edit_view_fetch [simp]: "edit_view (fetch rq k s) = edit_view s"
  by (simp add: fetch_def)

lemma edit_view_clearInterval [simp]: "edit_view (clearInterval i s) = edit_view s"
  by (simp add: clearInterval_def)

lemma edit_view_setTimeout [simp]: "edit_view (snd (setTimeout cb ms s)) = edit_view s"
  by (simp add: setTimeout_def)

lemma edit_view_after_refresh [simp]: "edit_view (after_refresh c s) = edit_view s"
  by (cases c) (simp_all add: after_refresh_def)

lemma edit_view_refresh_failed [simp]: "edit_view (refresh_failed c e s) = edit_view s"
  by (cases c) (simp_all add: refresh_failed_def)

lemma edit_view_refreshBlocks [simp]: "edit_view (refreshBlocks keep c s) = edit_view s"
  by (simp add: refreshBlocks_def)

lemma edit_view_run_callback [simp]: "edit_view (run_callback cb s) = edit_view s"
  by (cases cb) simp_all

lemma edit_view_pollTask_apply [simp]: "edit_view (pollTask_apply t s) = edit_view s"
  by (simp add: pollTask_apply_def Let_def)

lemma edit_view_apply_unkept [simp]: "edit_view (refreshBlocks_apply False bs s) = edit_view s"
  by (simp add: refreshBlocks_apply_def Let_def)

lemma edit_view_apply_focused:
  "activeElement s = Some ''dstText'' \<Longrightarrow> edit_view (refreshBlocks_apply keep bs s) = edit_view s"
  by (simp add: refreshBlocks_apply_def Let_def)

lemma edit_view_apply_found:
  assumes "truthy (currentBlockId s)" "activeElement s \<noteq> Some ''dstText''"
    "find (\<lambda>x. Some (block_id x) = currentBlockId s) bs = Some b"
  shows "edit_view (refreshBlocks_apply True bs s)
         = (or_empty (source_text b), or_empty (translated_text b), activeElement s)"
  using assms by (simp add: refreshBlocks_apply_def Let_def edit_view_def)

lemma edit_view_resume_focused:
  assumes "activeElement s = Some ''dstText''" "resume k r s = Some s'"
  shows "edit_view s' = edit_view s"
proof (cases r)
  case (Inl e)
  with assms(2) show ?thesis by (cases k) auto
next
  case (Inr p)
  with assms show ?thesis
    by (cases k; cases p) (auto simp: Let_def edit_view_apply_focused)
qed

lemma edit_view_background_step:
  assumes "is_background e" "activeElement s = Some ''dstText''" "step e s = Some s'"
  shows "edit_view s' = edit_view s"
proof (cases e)
  case (Fire i)
  with assms(3) show ?thesis by (auto split: option.splits timer.splits)
next
  case (Respond n r)
  with assms(3) obtain k where
    k: "resume k r (s\<lparr>pending := filter (\<lambda>e. fst e \<noteq> n) (pending s)\<rparr>) = Some s'"
    by (auto split: option.splits)
  have "edit_view s' = edit_view (s\<lparr>pending := filter (\<lambda>e. fst e \<noteq> n) (pending s)\<rparr>)"
    by (rule edit_view_resume_focused [OF _ k]) (simp add: assms(2))
  then show ?thesis by simp
qed (use assms(1) in \<open>simp_all add: is_background_def\<close>)

lemma edit_view_background_run:
  assumes "list_all is_background es" "activeElement s = Some ''dstText''" "run es s = Some s'"
  shows "edit_view s' = edit_view s"
  using assms
proof (induction es arbitrary: s)
  case Nil
  then show ?case by simp
next
  case (Cons e es)
  from Cons.prems(3) obtain s1 where s1: "step e s = Some s1" "run es s1 = Some s'"
    by (auto split: option.splits)
  from Cons.prems(1) have bg: "is_background e" "list_all is_background es" by simp_all
  have v: "edit_view s1 = edit_view s"
    by (rule edit_view_background_step [OF bg(1) Cons.prems(2) s1(1)])
  then have "activeElement s1 = Some ''dstText''"
    using Cons.prems(2) by (simp add: edit_view_def)
  from Cons.IH [OF bg(2) this s1(2)] v show ?case by simp
qed

subsection \<open>Timer ids are never given out twice\<close>

lemmas unfolded = stopPolling_eq startPolling_eq setProgress_def fetch_def clearInterval_def
  setTimeout_def after_refresh_def refresh_failed_def refreshBlocks_def pollTask_apply_def
  refreshBlocks_apply_def createTask_reset_def createTask_onclick_def runTranslate_onclick_def
  loadBlocks_onclick_def saveBlock_onclick_def exportDocx_onclick_def item_onclick_def Let_def

lemma evolves_iff:
  "evolves s s' =
     (nextTimer s \<le> nextTimer s'
      \<and> (\<forall>k<nextTimer s. map_of (timers s') k = None \<or> map_of (timers s') k = map_of (timers s) k))"
  by (auto simp: evolves_def list_all_iff)

lemma one_shot_iff:
  "one_shot s k = (k < nextTimer s \<and> (\<forall>cb ms. map_of (timers s) k \<noteq> Some (Interval cb ms)))"
  by (auto simp: one_shot_def split: option.splits timer.splits)

lemma map_of_filter_fst:
  "map_of (filter (\<lambda>e. P (fst e)) xs) k = (if P k then map_of xs k else None)"
  by (induction xs) auto

lemma evolves_refl: "evolves s s"
  by (simp add: evolves_iff)

lemma evolves_trans: "evolves s s1 \<Longrightarrow> evolves s1 s2 \<Longrightarrow> evolves s s2"
  unfolding evolves_iff by (metis le_trans less_le_trans)

lemma evolves_filter:
  "timers s' = filter (\<lambda>e. P (fst e)) (timers s) \<Longrightarrow> nextTimer s' = nextTimer s \<Longrightarrow> evolves s s'"
  by (simp add: evolves_iff map_of_filter_fst)

lemma evolves_add:
  "timers s' = timers s @ [(nextTimer s, t)] \<Longrightarrow> nextTimer s' = Suc (nextTimer s) \<Longrightarrow> evolves s s'"
  by (auto simp: evolves_iff map_add_def split: option.splits)

lemma evolves_upd [simp]:
  "evolves s (s'\<lparr>currentTaskId := a0\<rparr>) = evolves s s'"
  "evolves s (s'\<lparr>currentBlockId := a1\<rparr>) = evolves s s'"
  "evolves s (s'\<lparr>pollTaskTimer := a2\<rparr>) = evolves s s'"
  "evolves s (s'\<lparr>pollBlocksTimer := a3\<rparr>) = evolves s s'"
  "evolves s (s'\<lparr>blocksLoaded := a4\<rparr>) = evolves s s'"
  "evolves s (s'\<lparr>blocksCache := a5\<rparr>) = evolves s s'"
  "evolves s (s'\<lparr>progressBar := a6\<rparr>) = evolves s s'"
  "evolves s (s'\<lparr>progressPct := a7\<rparr>) = evolves s s'"
  "evolves s (s'\<lparr>progressStatus := a8\<rparr>) = evolves s s'"
  "evolves s (s'\<lparr>progressHint := a9\<rparr>) = evolves s s'"
  "evolves s (s'\<lparr>progressCounts := a10\<rparr>) = evolves s s'"
  "evolves s (s'\<lparr>blockList := a11\<rparr>) = evolves s s'"
  "evolves s (s'\<lparr>srcText := a12\<rparr>) = evolves s s'"
  "evolves s (s'\<lparr>dstText := a13\<rparr>) = evolves s s'"
  "evolves s (s'\<lparr>blockHint := a14\<rparr>) = evolves s s'"
  "evolves s (s'\<lparr>taskHint := a15\<rparr>) = evolves s s'"
  "evolves s (s'\<lparr>activeElement := a16\<rparr>) = evolves s s'"
  "evolves s (s'\<lparr>requests := a17\<rparr>) = evolves s s'"
  "evolves s (s'\<lparr>pending := a18\<rparr>) = evolves s s'"
  "evolves s (s'\<lparr>downloads := a19\<rparr>) = evolves s s'"
  by (simp_all add: evolves_iff)

lemma evolves_stopPolling: "evolves s s1 \<Longrightarrow> evolves s (stopPolling s1)"
proof (erule evolves_trans)
  show "evolves s1 (stopPolling s1)"
    by (rule evolves_filter [where P = "\<lambda>i. \<not> cleared s1 i"]) (simp_all add: stopPolling_eq)
qed

lemma evolves_startPolling: "evolves s s1 \<Longrightarrow> evolves s (startPolling s1)"
proof (erule evolves_trans)
  have "map_of (timers (startPolling s1)) k = (if \<not> cleared s1 k then map_of (timers s1) k else None)"
    if "k < nextTimer s1" for k
    using that
    by (simp add: startPolling_eq map_add_def map_of_filter_fst [where P = "\<lambda>i. \<not> cleared s1 i"]
        split: option.split)
  then show "evolves s1 (startPolling s1)"
    by (simp add: evolves_iff startPolling_eq)
qed

lemma evolves_clearInterval: "evolves s s1 \<Longrightarrow> evolves s (clearInterval i s1)"
proof (erule evolves_trans)
  show "evolves s1 (clearInterval i s1)"
    by (rule evolves_filter [where P = "\<lambda>j. j \<noteq> i"]) (simp_all add: clearInterval_def)
qed

lemma evolves_setTimeout: "evolves s s1 \<Longrightarrow> evolves s (snd (setTimeout cb ms s1))"
proof (erule evolves_trans)
  show "evolves s1 (snd (setTimeout cb ms s1))"
    by (rule evolves_add) (simp_all add: setTimeout_def)
qed

lemma evolves_setProgress [simp]: "evolves s (setProgress p st s1) = evolves s s1"
  by (simp add: setProgress_def Let_def)

lemma evolves_fetch [simp]: "evolves s (fetch rq k s1) = evolves s s1"
  by (simp add: fetch_def)

lemma evolves_refreshBlocks_apply [simp]: "evolves s (refreshBlocks_apply keep bs s1) = evolves s s1"
  by (simp add: refreshBlocks_apply_def Let_def split: option.split)

lemma evolves_after_refresh: "evolves s s1 \<Longrightarrow> evolves s (after_refresh c s1)"
  by (cases c) (simp_all add: after_refresh_def evolves_startPolling)

lemma evolves_refreshBlocks: "evolves s s1 \<Longrightarrow> evolves s (refreshBlocks keep c s1)"
  by (simp add: refreshBlocks_def evolves_after_refresh)

lemma evolves_run_callback: "evolves s s1 \<Longrightarrow> evolves s (run_callback cb s1)"
  by (cases cb) (simp_all add: evolves_refreshBlocks)

lemma evolves_pollTask_apply: "evolves s s1 \<Longrightarrow> evolves s (pollTask_apply t s1)"
  by (simp add: pollTask_apply_def Let_def evolves_stopPolling evolves_setTimeout)

lemma evolves_resume:
  assumes "resume k r s1 = Some s'" "evolves s s1"
  shows "evolves s s'"
proof (cases r)
  case (Inl e)
  with assms show ?thesis
    by (cases k) (auto simp: refresh_failed_def split: caller.splits)
next
  case (Inr p)
  with assms show ?thesis
    by (cases k; cases p)
       (auto simp: Let_def evolves_pollTask_apply evolves_after_refresh evolves_startPolling
          evolves_refreshBlocks)
qed

lemma evolves_step:
  assumes "step e s = Some s'"
  shows "evolves s s'"
proof (cases e)
  case (Fire i)
  with assms show ?thesis
    by (auto simp: evolves_refl evolves_run_callback evolves_clearInterval
        split: option.splits timer.splits)
next
  case (Respond n r)
  with assms obtain k where
    k: "resume k r (s\<lparr>pending := filter (\<lambda>e. fst e \<noteq> n) (pending s)\<rparr>) = Some s'"
    by (auto split: option.splits)
  show ?thesis
    by (rule evolves_resume [OF k]) (simp add: evolves_refl)
next
  case (ClickCreate f d)
  with assms show ?thesis
    by (auto simp: createTask_onclick_def createTask_reset_def Let_def evolves_refl
        evolves_stopPolling split: option.splits)
next
  case ClickRun
  with assms show ?thesis by (auto simp: runTranslate_onclick_def evolves_refl)
next
  case ClickLoad
  with assms show ?thesis
    by (auto simp: loadBlocks_onclick_def evolves_refl evolves_refreshBlocks)
next
  case ClickSave
  with assms show ?thesis by (auto simp: saveBlock_onclick_def evolves_refl)
next
  case ClickExport
  with assms show ?thesis by (auto simp: exportDocx_onclick_def evolves_refl)
next
  case (ClickItem i)
  with assms show ?thesis by (auto simp: item_onclick_def Let_def evolves_refl split: if_splits)
next
  case (FocusEl x)
  with assms show ?thesis by (auto simp: evolves_refl)
next
  case (TypeDst v)
  with assms show ?thesis by (auto simp: evolves_refl split: if_splits)
qed

lemma gone_step:
  assumes "gone s k" "step e s = Some s'"
  shows "gone s' k \<and> e \<noteq> Fire k"
proof -
  from evolves_step [OF assms(2)] assms(1) have "gone s' k"
    by (auto simp: evolves_iff gone_def)
  moreover have "e \<noteq> Fire k"
    using assms by (auto simp: gone_def)
  ultimately show ?thesis by simp
qed

lemma gone_run:
  "gone s k \<Longrightarrow> run es s = Some s' \<Longrightarrow> count_list es (Fire k) = 0"
proof (induction es arbitrary: s)
  case Nil
  then show ?case by simp
next
  case (Cons e es)
  from Cons.prems(2) obtain s1 where s1: "step e s = Some s1" "run es s1 = Some s'"
    by (auto split: option.splits)
  from gone_step [OF Cons.prems(1) s1(1)] Cons.IH [OF _ s1(2)] show ?case by simp
qed

lemma one_shot_step:
  assumes "one_shot s k" "step e s = Some s'"
  shows "one_shot s' k"
  using evolves_step [OF assms(2)] assms(1)
  by (auto simp: evolves_iff one_shot_iff)

lemma one_shot_fire:
  assumes "one_shot s k" "step (Fire k) s = Some s'"
  shows "gone s' k"
proof -
  from assms obtain cb ms where t: "map_of (timers s) k = Some (Timeout cb ms)"
    and s': "s' = run_callback cb (clearInterval k s)"
    by (auto simp: one_shot_iff split: option.splits timer.splits)
  have "gone (clearInterval k s) k"
    using assms(1) by (simp add: gone_def one_shot_iff clearInterval_def map_of_filter_fst [where P = "\<lambda>j. j \<noteq> k"])
  with evolves_run_callback [OF evolves_refl, of "clearInterval k s" cb] show ?thesis
    unfolding s' by (auto simp: evolves_iff gone_def)
qed

lemma one_shot_run:
  "one_shot s k \<Longrightarrow> run es s = Some s' \<Longrightarrow> count_list es (Fire k) \<le> 1"
proof (induction es arbitrary: s)
  case Nil
  then show ?case by simp
next
  case (Cons e es)
  from Cons.prems(2) obtain s1 where s1: "step e s = Some s1" "run es s1 = Some s'"
    by (auto split: option.splits)
  show ?case
  proof (cases "e = Fire k")
    case True
    with s1(1) Cons.prems(1) have "gone s1 k" by (simp add: one_shot_fire)
    from gone_run [OF this s1(2)] True show ?thesis by simp
  next
    case False
    from Cons.IH [OF one_shot_step [OF Cons.prems(1) s1(1)] s1(2)] False show ?thesis by simp
  qed
qed

subsection \<open>Without a restart no status request is sent\<close>

lemma calm_refl: "idle s \<Longrightarrow> calm s s"
  by (simp add: calm_def)

lemma calm_upd [simp]:
  "calm s (s'\<lparr>currentTaskId := a0\<rparr>) = calm s s'"
  "calm s (s'\<lparr>currentBlockId := a1\<rparr>) = calm s s'"
  "calm s (s'\<lparr>pollTaskTimer := a2\<rparr>) = calm s s'"
  "calm s (s'\<lparr>pollBlocksTimer := a3\<rparr>) = calm s s'"
  "calm s (s'\<lparr>blocksLoaded := a4\<rparr>) = calm s s'"
  "calm s (s'\<lparr>blocksCache := a5\<rparr>) = calm s s'"
  "calm s (s'\<lparr>progressBar := a6\<rparr>) = calm s s'"
  "calm s (s'\<lparr>progressPct := a7\<rparr>) = calm s s'"
  "calm s (s'\<lparr>progressStatus := a8\<rparr>) = calm s s'"
  "calm s (s'\<lparr>progressHint := a9\<rparr>) = calm s s'"
  "calm s (s'\<lparr>progressCounts := a10\<rparr>) = calm s s'"
  "calm s (s'\<lparr>blockList := a11\<rparr>) = calm s s'"
  "calm s (s'\<lparr>srcText := a12\<rparr>) = calm s s'"
  "calm s (s'\<lparr>dstText := a13\<rparr>) = calm s s'"
  "calm s (s'\<lparr>blockHint := a14\<rparr>) = calm s s'"
  "calm s (s'\<lparr>taskHint := a15\<rparr>) = calm s s'"
  "calm s (s'\<lparr>activeElement := a16\<rparr>) = calm s s'"
  "calm s (s'\<lparr>nextTimer := a17\<rparr>) = calm s s'"
  "calm s (s'\<lparr>pending := a18\<rparr>) = calm s s'"
  "calm s (s'\<lparr>downloads := a19\<rparr>) = calm s s'"
  by (simp_all add: calm_def idle_def status_polls_def)

lemma calm_stopPolling: "calm s s1 \<Longrightarrow> calm s (stopPolling s1)"
  by (simp add: calm_def idle_def status_polls_def stopPolling_eq list_all_iff)

lemma calm_clearInterval: "calm s s1 \<Longrightarrow> calm s (clearInterval i s1)"
  by (simp add: calm_def idle_def status_polls_def clearInterval_def list_all_iff)

lemma calm_setTimeout: "calm s s1 \<Longrightarrow> calm s (snd (setTimeout FinalRefreshCb 300 s1))"
  by (simp add: calm_def idle_def status_polls_def setTimeout_def is_final_def)

lemma calm_setProgress [simp]: "calm s (setProgress p st s1) = calm s s1"
  by (simp add: setProgress_def Let_def)

lemma calm_fetch: "\<not> is_GetTask rq \<Longrightarrow> calm s (fetch rq k s1) = calm s s1"
  by (simp add: fetch_def calm_def idle_def status_polls_def)

lemma calm_refreshBlocks_apply [simp]: "calm s (refreshBlocks_apply keep bs s1) = calm s s1"
  by (simp add: refreshBlocks_apply_def Let_def split: option.split)

lemma calm_refresh_failed [simp]: "calm s (refresh_failed c e s1) = calm s s1"
  by (cases c) (simp_all add: refresh_failed_def)

lemma calm_after_refresh: "c \<noteq> FromLoad \<Longrightarrow> calm s (after_refresh c s1) = calm s s1"
  by (cases c) (simp_all add: after_refresh_def)

lemma calm_refreshBlocks: "c \<noteq> FromLoad \<Longrightarrow> calm s (refreshBlocks keep c s1) = calm s s1"
  by (simp add: refreshBlocks_def calm_after_refresh calm_fetch is_GetTask_def)

lemma calm_pollTask_apply: "calm s s1 \<Longrightarrow> calm s (pollTask_apply t s1)"
  by (simp add: pollTask_apply_def Let_def calm_stopPolling calm_setTimeout)

lemma calm_resume:
  assumes "resume k r s1 = Some s'" "calm s s1"
    and "\<And>p. r = Inr p \<Longrightarrow> k \<noteq> KCreate \<and> k \<noteq> KRun \<and> (\<forall>keep. k \<noteq> KRefresh keep FromLoad)"
  shows "calm s s'"
proof (cases r)
  case (Inl e)
  with assms(1,2) show ?thesis
    by (cases k) auto
next
  case (Inr p)
  with assms show ?thesis
    by (cases k; cases p)
       (auto simp: Let_def calm_pollTask_apply calm_after_refresh calm_refreshBlocks)
qed

lemma calm_step:
  assumes "idle s" "\<not> starts_polling e s" "step e s = Some s'"
  shows "calm s s'"
proof (cases e)
  case (Fire i)
  from assms(3) Fire obtain t where t: "map_of (timers s) i = Some t"
    by (auto split: option.splits)
  then have "(i, t) \<in> set (timers s)" by (rule map_of_SomeD)
  with assms(1) have "t = Timeout FinalRefreshCb 300"
    by (auto simp: idle_def is_final_def list_all_iff)
  with assms(3) Fire t have "s' = refreshBlocks False FromFinal (clearInterval i s)"
    by simp
  then show ?thesis
    using assms(1) by (simp add: calm_refreshBlocks calm_clearInterval calm_refl)
next
  case (Respond n r)
  with assms(3) obtain k where k: "map_of (pending s) n = Some k"
    and r: "resume k r (s\<lparr>pending := filter (\<lambda>e. fst e \<noteq> n) (pending s)\<rparr>) = Some s'"
    by (auto split: option.splits)
  have ok: "k \<noteq> KCreate \<and> k \<noteq> KRun \<and> (\<forall>keep. k \<noteq> KRefresh keep FromLoad)" if "r = Inr p" for p
    using assms(2) Respond k that by (auto simp: starts_polling_def)
  show ?thesis
    by (rule calm_resume [OF r _ ok]) (simp_all add: calm_refl assms(1))
next
  case (ClickCreate f d)
  with assms show ?thesis
    by (auto simp: createTask_onclick_def createTask_reset_def Let_def calm_refl calm_fetch
        is_GetTask_def calm_stopPolling split: option.splits)
next
  case ClickRun
  with assms show ?thesis by (auto simp: runTranslate_onclick_def calm_refl calm_fetch is_GetTask_def)
next
  case ClickLoad
  with assms show ?thesis
    by (auto simp: loadBlocks_onclick_def refreshBlocks_def calm_refl calm_fetch is_GetTask_def)
next
  case ClickSave
  with assms show ?thesis by (auto simp: saveBlock_onclick_def calm_refl calm_fetch is_GetTask_def)
next
  case ClickExport
  with assms show ?thesis by (auto simp: exportDocx_onclick_def calm_refl calm_fetch is_GetTask_def)
next
  case (ClickItem i)
  with assms show ?thesis by (auto simp: item_onclick_def Let_def calm_refl split: if_splits)
next
  case (FocusEl x)
  with assms show ?thesis by (auto simp: calm_refl)
next
  case (TypeDst v)
  with assms show ?thesis by (auto simp: calm_refl split: if_splits)
qed

lemma calm_run:
  "idle s \<Longrightarrow> no_restart es s \<Longrightarrow> run es s = Some s' \<Longrightarrow> calm s s'"
proof (induction es arbitrary: s)
  case Nil
  then show ?case by (simp add: calm_refl)
next
  case (Cons e es)
  from Cons.prems(3) obtain s1 where s1: "step e s = Some s1" "run es s1 = Some s'"
    by (auto split: option.splits)
  from Cons.prems(2) s1(1) have nr: "\<not> starts_polling e s" "no_restart es s1" by simp_all
  have c1: "calm s s1" by (rule calm_step [OF Cons.prems(1) nr(1) s1(1)])
  then have "idle s1" by (simp add: calm_def)
  from Cons.IH [OF this nr(2) s1(2)] c1 show ?case by (simp add: calm_def)
qed

subsection \<open>The handlers as state updates\<close>

lemma pollTask_apply_finished:
  assumes "inv s" "task_status t = Some ''finished''"
  shows "timers (pollTask_apply t s)
           = filter (\<lambda>e. is_final (snd e)) (timers s) @ [(nextTimer s, Timeout FinalRefreshCb 300)]"
    and "pollTaskTimer (pollTask_apply t s) = None"
    and "pollBlocksTimer (pollTask_apply t s) = None"
    and "nextTimer (pollTask_apply t s) = Suc (nextTimer s)"
proof -
  have c: "filter (\<lambda>e. \<not> cleared s (fst e)) (timers s) = filter (\<lambda>e. is_final (snd e)) (timers s)"
    using inv_cleared [OF assms(1)] by (simp cong: filter_cong)
  have n: "\<not> cleared s (nextTimer s)"
    by (rule inv_fresh [OF assms(1)])
  show "timers (pollTask_apply t s)
           = filter (\<lambda>e. is_final (snd e)) (timers s) @ [(nextTimer s, Timeout FinalRefreshCb 300)]"
    using assms(2) n c
    by (simp add: pollTask_apply_def Let_def stopPolling_eq setTimeout_def setProgress_def)
  show "pollTaskTimer (pollTask_apply t s) = None" "pollBlocksTimer (pollTask_apply t s) = None"
    "nextTimer (pollTask_apply t s) = Suc (nextTimer s)"
    using assms(2)
    by (simp_all add: pollTask_apply_def Let_def stopPolling_eq setTimeout_def setProgress_def)
qed

lemma show_nat_0: "show_nat 0 = ''0''"
  by (simp add: show_nat.simps [of 0] digit_char_def)

lemma progress_val_shown: "progress_val p = shown_fraction p"
  by (cases p) (auto simp: shown_fraction_def clamp_spec_def)

lemma pollTask_apply_bar:
  "progressBar (pollTask_apply t s) = progress_val (or_zero (progress t))"
  "progressPct (pollTask_apply t s) = pct_text (progress_val (or_zero (progress t)))"
  by (simp_all add: pollTask_apply_def Let_def stopPolling_eq setTimeout_def setProgress_def)

lemma refreshBlocks_apply_cache [simp]: "blocksCache (refreshBlocks_apply keep bs s) = bs"
  by (simp add: refreshBlocks_apply_def Let_def split: option.split)

lemma after_refresh_cache [simp]: "blocksCache (after_refresh c s) = blocksCache s"
  by (cases c) (simp_all add: after_refresh_def startPolling_eq)

lemma run_callback_cases:
  "run_callback cb s = s
   \<or> (\<exists>rq k. run_callback cb s = fetch rq k s
        \<and> (k = KPollTask \<or> k = KRefresh True FromTick \<or> k = KRefresh False FromFinal))"
  by (cases cb) (auto simp: refreshBlocks_def after_refresh_def)

lemma pending_fresh:
  assumes "inv s"
  shows "map_of (pending s) (length (requests s)) = None"
    and "filter (\<lambda>e. fst e \<noteq> length (requests s)) (pending s) = pending s"
proof -
  have a: "\<forall>e \<in> set (pending s). fst e \<noteq> length (requests s)"
    using assms by (auto simp: inv_def list_all_iff)
  then show "filter (\<lambda>e. fst e \<noteq> length (requests s)) (pending s) = pending s"
    by simp
  show "map_of (pending s) (length (requests s)) = None"
  proof (rule ccontr)
    assume "map_of (pending s) (length (requests s)) \<noteq> None"
    then obtain y where "map_of (pending s) (length (requests s)) = Some y" by blast
    then have "(length (requests s), y) \<in> set (pending s)" by (rule map_of_SomeD)
    with a show False by auto
  qed
qed

lemma fetch_then_respond:
  assumes "inv s"
  shows "step (Respond (length (requests s)) r) (fetch rq k s)
           = resume k r (s\<lparr>requests := requests s @ [rq]\<rparr>)"
  using pending_fresh [OF assms]
  by (simp add: fetch_def map_add_def)

lemma blocksLoaded_resume:
  assumes "resume k r s = Some s'" "blocksLoaded s'"
  shows "blocksLoaded s"
proof (cases r)
  case (Inl e)
  with assms show ?thesis
    by (cases k) (auto simp: refresh_failed_def split: caller.splits)
next
  case (Inr p)
  with assms show ?thesis
    by (cases k; cases p)
       (auto simp: unfolded split: caller.splits if_splits option.splits)
qed

lemma blocksLoaded_step:
  assumes "step e s = Some s'" "blocksLoaded s'" "\<not> blocksLoaded s"
  shows "e = ClickLoad"
proof (cases e)
  case (Fire i)
  have "blocksLoaded (run_callback cb s0) = blocksLoaded s0" for cb s0
    by (cases cb) (simp_all add: unfolded split: caller.splits)
  with Fire assms show ?thesis
    by (auto simp: clearInterval_def split: option.splits timer.splits)
next
  case (Respond n r)
  with assms(1) obtain k where
    "resume k r (s\<lparr>pending := filter (\<lambda>e. fst e \<noteq> n) (pending s)\<rparr>) = Some s'"
    by (auto split: option.splits)
  from blocksLoaded_resume [OF this assms(2)] assms(3) show ?thesis by simp
next
  case (ClickCreate f d)
  with assms show ?thesis by (auto simp: unfolded split: option.splits)
next
  case (ClickItem i)
  with assms show ?thesis by (auto simp: unfolded split: if_splits)
qed (use assms in \<open>auto simp: unfolded split: if_splits\<close>)

lemma createTask_reset_eq:
  "createTask_reset s =
     s\<lparr>timers := filter (\<lambda>e. \<not> cleared s (fst e)) (timers s),
       pollTaskTimer := None, pollBlocksTimer := None,
       blocksLoaded := False, blocksCache := [], currentBlockId := None,
       blockList := [], srcText := [], dstText := [], blockHint := [],
       progressHint := [], progressCounts := [],
       progressBar := 0, progressPct := ''0%'', progressStatus := ''Status: created''\<rparr>"
  by (simp add: createTask_reset_def Let_def stopPolling_eq setProgress_def pct_text_def show_nat_0)

lemma createTask_reset_timers:
  assumes "inv s"
  shows "timers (createTask_reset s) = filter (\<lambda>e. is_final (snd e)) (timers s)"
  using inv_cleared [OF assms] by (simp add: createTask_reset_eq cong: filter_cong)

subsection \<open>The example states are reached\<close>

lemmas ex_defs = ex_b_def ex_b_done_def ex_created_def ex_finished_def ex_polling_def
  ex_typing_def ex_status_def

lemmas run_defs = init_def setProgress_def createTask_onclick_def createTask_reset_def fetch_def
  stopPolling_eq startPolling_eq cleared_def loadBlocks_onclick_def refreshBlocks_def
  refreshBlocks_apply_def after_refresh_def item_onclick_def render_item_def item_label_def
  pct_text_def show_int_def is_done_def is_space_def Let_def pollTask_apply_def setTimeout_def
  clearInterval_def refresh_failed_def runTranslate_onclick_def

lemma show_nat_digit: "n < 10 \<Longrightarrow> show_nat n = [digit_char n]"
  by (simp add: show_nat.simps [of n])

lemma digit_chars [simp]:
  "show_nat 0 = ''0''" "show_nat (Suc 0) = ''1''" "show_nat 1 = ''1''" "show_nat 7 = ''7''"
  by (simp_all add: show_nat_digit digit_char_def)

lemma show_nat_100 [simp]: "show_nat 100 = ''100''"
  by (simp add: show_nat.simps [of 100] show_nat.simps [of 10] show_nat.simps [of 1] digit_char_def)

lemma ex_polling_reachable: "run ex_trace init = Some ex_polling"
  by (simp add: ex_trace_def ex_defs run_defs)

lemma ex_typing_reachable: "run ex_trace_typing init = Some ex_typing"
  by (simp add: ex_trace_typing_def ex_defs run_defs)

lemma ex_status_reachable: "run ex_trace_status init = Some ex_status"
  by (simp add: ex_trace_status_def ex_defs run_defs)

lemma inv_ex_polling: "inv ex_polling"
  using inv_run [OF inv_init ex_polling_reachable] .

lemma inv_ex_status: "inv ex_status"
  using inv_run [OF inv_init ex_status_reachable] .

lemma ex_stopped_step: "step (Respond 1 (Inr (TaskInfo ex_finished))) ex_status = Some ex_stopped"
  by (simp add: ex_stopped_def ex_defs run_defs)

lemma ex_reset_step: "step ex_new_upload ex_polling = Some ex_reset"
  by (simp add: ex_new_upload_def ex_reset_def ex_defs run_defs)

lemma ex_final_wait_reachable: "run ex_trace_final ex_polling = Some ex_final_wait"
  by (simp add: ex_trace_final_def ex_final_wait_def ex_defs run_defs)

section \<open>The properties\<close>

subsection \<open>C1: a refresh leaves a focused edit alone\<close>

text \<open>Claim C1. A block list arrives for a \<^verbatim>\<open>refreshBlocks(true)\<close>, a block is selected
  (\<^verbatim>\<open>currentBlockId\<close> is truthy, the code's own test) and the list has a block of that
  id, \<open>b\<close> being the first. Then the refresh completes, and: if the destination box
  has the focus, both text boxes are as before; if it has not, they show exactly the
  source and the translation of \<open>b\<close> (an absent text as the empty string, as
  \<^verbatim>\<open>|| ""\<close> does). And however many timer ticks and answers follow one another while
  the destination box keeps the focus, both text boxes stay as they were.\<close>

theorem refresh_keeps_focused_edit:
  assumes "map_of (pending s) n = Some (KRefresh True c)"
    and "truthy (currentBlockId s)"
    and "find (\<lambda>x. Some (block_id x) = currentBlockId s) bs = Some b"
  shows "(\<exists>s'. step (Respond n (Inr (Blocks bs))) s = Some s'
            \<and> (activeElement s = Some ''dstText'' \<longrightarrow>
                 srcText s' = srcText s \<and> dstText s' = dstText s)
            \<and> (activeElement s \<noteq> Some ''dstText'' \<longrightarrow>
                 srcText s' = or_empty (source_text b) \<and> dstText s' = or_empty (translated_text b)))
         \<and> (activeElement s = Some ''dstText'' \<and> list_all is_background es \<and> run es s = Some s''
              \<longrightarrow> srcText s'' = srcText s \<and> dstText s'' = dstText s)"
proof -
  let ?s0 = "s\<lparr>pending := filter (\<lambda>e. fst e \<noteq> n) (pending s)\<rparr>"
  let ?s' = "after_refresh c (refreshBlocks_apply True bs ?s0)"
  have st: "step (Respond n (Inr (Blocks bs))) s = Some ?s'"
    using assms(1) by simp
  have foc: "edit_view ?s' = edit_view s" if "activeElement s = Some ''dstText''"
    using that by (simp add: edit_view_apply_focused)
  have nofoc: "edit_view ?s' = (or_empty (source_text b), or_empty (translated_text b), activeElement s)"
    if "activeElement s \<noteq> Some ''dstText''"
    using that assms(2,3) edit_view_apply_found [of ?s0 bs b] by simp
  have one: "\<exists>s'. step (Respond n (Inr (Blocks bs))) s = Some s'
            \<and> (activeElement s = Some ''dstText'' \<longrightarrow>
                 srcText s' = srcText s \<and> dstText s' = dstText s)
            \<and> (activeElement s \<noteq> Some ''dstText'' \<longrightarrow>
                 srcText s' = or_empty (source_text b) \<and> dstText s' = or_empty (translated_text b))"
    using st foc nofoc by (auto simp: edit_view_def)
  have many: "srcText s'' = srcText s \<and> dstText s'' = dstText s"
    if "activeElement s = Some ''dstText''" "list_all is_background es" "run es s = Some s''"
    using edit_view_background_run [OF that(2,1,3)] by (simp add: edit_view_def)
  from one many show ?thesis by blast
qed

text \<open>The instance: block b7 is open and the block timer's request is in flight. Without the
  focus the boxes take the fetched texts; in \<open>ex_typing\<close> the user's \<open>Bonj\<close> survives
  the answer, and survives the five background events of \<open>ex_ticks\<close>.\<close>

theorem refresh_keeps_focused_edit_witness:
  "map_of (pending ex_polling) 2 = Some (KRefresh True FromTick)
   \<and> truthy (currentBlockId ex_polling)
   \<and> find (\<lambda>x. Some (block_id x) = currentBlockId ex_polling) [ex_b_done] = Some ex_b_done
   \<and> activeElement ex_polling \<noteq> Some ''dstText''
   \<and> srcText (the (step (Respond 2 (Inr (Blocks [ex_b_done]))) ex_polling)) = ''Hello''
   \<and> dstText (the (step (Respond 2 (Inr (Blocks [ex_b_done]))) ex_polling)) = ''Bonjour''
   \<and> activeElement ex_typing = Some ''dstText''
   \<and> dstText (the (step (Respond 2 (Inr (Blocks [ex_b_done]))) ex_typing)) = ''Bonj''
   \<and> list_all is_background ex_ticks
   \<and> run ex_ticks ex_typing \<noteq> None
   \<and> dstText (the (run ex_ticks ex_typing)) = ''Bonj''"
proof -
  have h1: "map_of (pending ex_polling) 2 = Some (KRefresh True FromTick)"
    and h2: "truthy (currentBlockId ex_polling)"
    and h3: "find (\<lambda>x. Some (block_id x) = currentBlockId ex_polling) [ex_b_done] = Some ex_b_done"
    and h4: "activeElement ex_polling \<noteq> Some ''dstText''"
    by (simp_all add: ex_defs)
  have k1: "map_of (pending ex_typing) 2 = Some (KRefresh True FromTick)"
    and k2: "truthy (currentBlockId ex_typing)"
    and k3: "find (\<lambda>x. Some (block_id x) = currentBlockId ex_typing) [ex_b_done] = Some ex_b_done"
    and k4: "activeElement ex_typing = Some ''dstText''"
    by (simp_all add: ex_defs)
  note A = refresh_keeps_focused_edit [OF h1 h2 h3, THEN conjunct1]
  note B = refresh_keeps_focused_edit [OF k1 k2 k3, THEN conjunct1]
  from A h4 obtain s' where a: "step (Respond 2 (Inr (Blocks [ex_b_done]))) ex_polling = Some s'"
    and b: "srcText s' = or_empty (source_text ex_b_done)" "dstText s' = or_empty (translated_text ex_b_done)"
    by blast
  from B k4 obtain s2 where c: "step (Respond 2 (Inr (Blocks [ex_b_done]))) ex_typing = Some s2"
    and d: "dstText s2 = dstText ex_typing"
    by blast
  have bg: "list_all is_background ex_ticks"
    by (simp add: ex_ticks_def is_background_def)
  have "run ex_ticks ex_typing \<noteq> None"
    by (simp add: ex_ticks_def ex_defs run_defs)
  then obtain s3 where e: "run ex_ticks ex_typing = Some s3" by blast
  with refresh_keeps_focused_edit [OF k1 k2 k3, THEN conjunct2, of ex_ticks s3] k4 bg
  have f: "dstText s3 = dstText ex_typing" by blast
  have vals: "or_empty (source_text ex_b_done) = ''Hello''" "or_empty (translated_text ex_b_done) = ''Bonjour''"
    "dstText ex_typing = ''Bonj''"
    by (simp_all add: ex_defs)
  show ?thesis
    unfolding a c e option.sel b d f vals using h1 h2 h3 h4 k4 bg by simp
qed

subsection \<open>C2: the answer finished stops both timers and schedules one last refresh\<close>

text \<open>Claim C2. A status request is answered with status \<^verbatim>\<open>finished\<close>, in a reachable
  state. Then in that same step both timer variables become null and every interval timer
  is cleared; the timers left are the delayed refreshes that were pending, and exactly one
  new one: \<^verbatim>\<open>refreshBlocks(false)\<close> after 300 ms. In no run from there does that timer
  fire twice. And in no run from there that does not start polling again (through an
  upload, a run-translate or a load that succeeds) is another status request sent.\<close>

theorem finished_poll_stops_and_schedules_one_refresh:
  assumes "inv s"
    and "map_of (pending s) n = Some KPollTask"
    and "task_status t = Some ''finished''"
  shows "\<exists>s'. step (Respond n (Inr (TaskInfo t))) s = Some s'
           \<and> pollTaskTimer s' = None \<and> pollBlocksTimer s' = None
           \<and> timers s' = filter (\<lambda>e. is_final (snd e)) (timers s) @ [(nextTimer s, Timeout FinalRefreshCb 300)]
           \<and> (\<forall>es s''. run es s' = Some s'' \<longrightarrow> count_list es (Fire (nextTimer s)) \<le> 1)
           \<and> (\<forall>es s''. no_restart es s' \<and> run es s' = Some s'' \<longrightarrow> status_polls s'' = status_polls s')"
proof -
  let ?s0 = "s\<lparr>pending := filter (\<lambda>e. fst e \<noteq> n) (pending s)\<rparr>"
  let ?s' = "pollTask_apply t ?s0"
  have st: "step (Respond n (Inr (TaskInfo t))) s = Some ?s'"
    using assms(2) by simp
  have i0: "inv ?s0"
    by (rule inv_drop_pending [OF assms(1)])
  note fin = pollTask_apply_finished [OF i0 assms(3)]
  have tm: "timers ?s' = filter (\<lambda>e. is_final (snd e)) (timers s) @ [(nextTimer s, Timeout FinalRefreshCb 300)]"
    using fin(1) by simp
  have "idle ?s'"
    unfolding idle_def tm by (simp add: list_all_iff is_final_def)
  then have polls: "status_polls s'' = status_polls ?s'" if "no_restart es ?s'" "run es ?s' = Some s''" for es s''
    using calm_run [OF _ that] by (simp add: calm_def)
  have "map_of (timers ?s') (nextTimer s) = Some (Timeout FinalRefreshCb 300)"
  proof -
    have "map_of (filter (\<lambda>e. is_final (snd e)) (timers s)) (nextTimer s) = None"
    proof (rule ccontr)
      assume "map_of (filter (\<lambda>e. is_final (snd e)) (timers s)) (nextTimer s) \<noteq> None"
      then obtain y where "map_of (filter (\<lambda>e. is_final (snd e)) (timers s)) (nextTimer s) = Some y"
        by blast
      then have "(nextTimer s, y) \<in> set (filter (\<lambda>e. is_final (snd e)) (timers s))"
        by (rule map_of_SomeD)
      then have "(nextTimer s, y) \<in> set (timers s)"
        by simp
      with assms(1) show False by (auto simp: inv_def list_all_iff)
    qed
    then show ?thesis unfolding tm by (simp add: map_add_def)
  qed
  then have "one_shot ?s' (nextTimer s)"
    using fin(4) by (simp add: one_shot_iff)
  then have once: "count_list es (Fire (nextTimer s)) \<le> 1" if "run es ?s' = Some s''" for es s''
    using one_shot_run that by blast
  show ?thesis
    using st fin(2,3) tm once polls by blast
qed

text \<open>The instance: the first status request of a new task is answered \<open>finished\<close>; the
  state after it is \<open>ex_stopped\<close>, with timer 3 the one delayed refresh.\<close>

theorem finished_poll_witness:
  "inv ex_status
   \<and> map_of (pending ex_status) 1 = Some KPollTask
   \<and> task_status ex_finished = Some ''finished''
   \<and> step (Respond 1 (Inr (TaskInfo ex_finished))) ex_status = Some ex_stopped
   \<and> pollTaskTimer ex_stopped = None \<and> pollBlocksTimer ex_stopped = None
   \<and> timers ex_stopped = [(3, Timeout FinalRefreshCb 300)]
   \<and> run ex_after ex_stopped \<noteq> None
   \<and> count_list ex_after (Fire (nextTimer ex_status)) \<le> 1
   \<and> no_restart ex_after ex_stopped
   \<and> status_polls (the (run ex_after ex_stopped)) = status_polls ex_stopped"
proof -
  have h1: "inv ex_status" by (rule inv_ex_status)
  have h2: "map_of (pending ex_status) 1 = Some KPollTask"
    and h3: "task_status ex_finished = Some ''finished''"
    by (simp_all add: ex_defs)
  note A = finished_poll_stops_and_schedules_one_refresh [OF h1 h2 h3]
  from A have a: "pollTaskTimer ex_stopped = None" "pollBlocksTimer ex_stopped = None"
    "timers ex_stopped = filter (\<lambda>e. is_final (snd e)) (timers ex_status) @ [(nextTimer ex_status, Timeout FinalRefreshCb 300)]"
    and b: "\<And>es s''. run es ex_stopped = Some s'' \<Longrightarrow> count_list es (Fire (nextTimer ex_status)) \<le> 1"
    and c: "\<And>es s''. no_restart es ex_stopped \<Longrightarrow> run es ex_stopped = Some s'' \<Longrightarrow> status_polls s'' = status_polls ex_stopped"
    unfolding ex_stopped_step by auto
  have "run ex_after ex_stopped \<noteq> None"
    by (simp add: ex_after_def ex_stopped_def ex_defs run_defs)
  then obtain s3 where r: "run ex_after ex_stopped = Some s3" by blast
  have nr: "no_restart ex_after ex_stopped"
    by (simp add: ex_after_def ex_stopped_def ex_defs run_defs starts_polling_def)
  have t: "filter (\<lambda>e. is_final (snd e)) (timers ex_status) @ [(nextTimer ex_status, Timeout FinalRefreshCb 300)]
           = [(3, Timeout FinalRefreshCb 300)]"
    by (simp add: ex_defs is_final_def)
  show ?thesis
    using h1 h2 h3 a b [OF r] c [OF nr r] nr r ex_stopped_step t by simp
qed

subsection \<open>C3: a new upload stops the timers, then resets\<close>

text \<open>Claim C3 as stated fails in its last part: the answer to a request sent for the old
  task before the upload was clicked is still applied after the reset. In \<open>ex_polling\<close>
  request 2 asks for the blocks of task t1; the upload resets cache, list and counts; then
  the answer to request 2 fills all three with the old task's block. And a click with no
  file chosen stops and resets nothing: it only writes the task hint.\<close>

theorem stale_answer_after_reset_counterexample:
  "run ex_trace init = Some ex_polling
   \<and> requests ex_polling ! 2 = GetBlocks ''t1''
   \<and> step ex_new_upload ex_polling = Some ex_reset
   \<and> blocksCache ex_reset = [] \<and> blockList ex_reset = [] \<and> progressCounts ex_reset = []
   \<and> step (Respond 2 (Inr (Blocks [ex_b_done]))) ex_reset
        = Some (ex_reset\<lparr>blocksCache := [ex_b_done], progressCounts := ''Blocks: 1 / 1'',
                  blockList := [render_item ex_b_done], pending := [(3, KCreate)]\<rparr>)
   \<and> step (ClickCreate None ''en-fr'') ex_polling
        = Some (ex_polling\<lparr>taskHint := ''Please select a .docx file.''\<rparr>)"
  by (simp add: ex_polling_reachable ex_reset_step) (simp add: ex_reset_def ex_defs run_defs)

text \<open>Claim C3, amended. The upload button is clicked with a file chosen, in a reachable
  state. Then the handler resets the state that \<^verbatim>\<open>stopPolling\<close> returns (the timers
  are stopped first) and sends the upload: both timer variables are null and no interval
  timer is left, the cache is empty, \<^verbatim>\<open>blocksLoaded\<close> is false, no block is selected
  and both text boxes are empty. And in no run from there does a timer that was held
  before the click ever fire.\<close>

theorem createTask_stops_polling_then_resets:
  assumes "inv s"
  shows "\<exists>s'. step (ClickCreate (Some f) d) s = Some s'
           \<and> s' = fetch (PostTasks f d) KCreate
                  (setProgress (Num 0) ''created''
                    ((stopPolling s)\<lparr>blocksLoaded := False, blocksCache := [], currentBlockId := None,
                       blockList := [], srcText := [], dstText := [], blockHint := [],
                       progressHint := [], progressCounts := []\<rparr>))
           \<and> pollTaskTimer s' = None \<and> pollBlocksTimer s' = None
           \<and> timers s' = filter (\<lambda>x. is_final (snd x)) (timers s)
           \<and> blocksCache s' = [] \<and> \<not> blocksLoaded s' \<and> currentBlockId s' = None
           \<and> srcText s' = [] \<and> dstText s' = []
           \<and> (\<forall>i es s''. held s i \<and> run es s' = Some s'' \<longrightarrow> count_list es (Fire i) = 0)"
proof -
  let ?s' = "fetch (PostTasks f d) KCreate (createTask_reset s)"
  have 1: "step (ClickCreate (Some f) d) s = Some ?s'"
    by (simp add: createTask_onclick_def)
  have 3: "timers ?s' = filter (\<lambda>x. is_final (snd x)) (timers s)"
    by (simp add: createTask_reset_timers [OF assms] fetch_def)
  have g: "gone ?s' i" if "held s i" for i
  proof -
    have "i < nextTimer s"
      using that assms by (auto simp: inv_def held_def)
    moreover have "map_of (filter (\<lambda>x. is_final (snd x)) (timers s)) i = None"
    proof (rule ccontr)
      assume "map_of (filter (\<lambda>x. is_final (snd x)) (timers s)) i \<noteq> None"
      then obtain y where "map_of (filter (\<lambda>x. is_final (snd x)) (timers s)) i = Some y" by blast
      then have "(i, y) \<in> set (filter (\<lambda>x. is_final (snd x)) (timers s))" by (rule map_of_SomeD)
      then have "(i, y) \<in> set (timers s)" "is_final y" by simp_all
      with assms that show False by (auto simp: inv_def list_all_iff)
    qed
    ultimately show ?thesis
      unfolding gone_def 3 by (simp add: fetch_def createTask_reset_eq)
  qed
  have 4: "count_list es (Fire i) = 0" if "held s i" "run es ?s' = Some s''" for i es s''
    using gone_run [OF g [OF that(1)] that(2)] .
  have 5: "pollTaskTimer ?s' = None" "pollBlocksTimer ?s' = None"
    "blocksCache ?s' = []" "\<not> blocksLoaded ?s'" "currentBlockId ?s' = None"
    "srcText ?s' = []" "dstText ?s' = []"
    by (simp_all add: createTask_reset_eq fetch_def)
  have 6: "createTask_reset s = setProgress (Num 0) ''created''
                    ((stopPolling s)\<lparr>blocksLoaded := False, blocksCache := [], currentBlockId := None,
                       blockList := [], srcText := [], dstText := [], blockHint := [],
                       progressHint := [], progressCounts := []\<rparr>)"
    by (simp add: createTask_reset_def Let_def)
  show ?thesis
    using 1 3 4 5 unfolding 6 by blast
qed

text \<open>The instance: the second upload in \<open>ex_polling\<close> gives \<open>ex_reset\<close>; timer 4 was held
  and does not fire among the events of \<open>ex_late\<close>.\<close>

theorem createTask_stops_polling_then_resets_witness:
  "inv ex_polling
   \<and> step ex_new_upload ex_polling = Some ex_reset
   \<and> pollTaskTimer ex_reset = None \<and> pollBlocksTimer ex_reset = None \<and> timers ex_reset = []
   \<and> blocksCache ex_reset = [] \<and> \<not> blocksLoaded ex_reset \<and> currentBlockId ex_reset = None
   \<and> srcText ex_reset = [] \<and> dstText ex_reset = []
   \<and> held ex_polling 4 \<and> run ex_late ex_reset \<noteq> None \<and> count_list ex_late (Fire 4) = 0"
proof -
  note A = createTask_stops_polling_then_resets [OF inv_ex_polling, of "''b.docx''" "''en-fr''"]
  have s: "step (ClickCreate (Some ''b.docx'') ''en-fr'') ex_polling = Some ex_reset"
    using ex_reset_step by (simp add: ex_new_upload_def)
  from A have a: "pollTaskTimer ex_reset = None" "pollBlocksTimer ex_reset = None"
    "timers ex_reset = filter (\<lambda>x. is_final (snd x)) (timers ex_polling)"
    "blocksCache ex_reset = []" "\<not> blocksLoaded ex_reset" "currentBlockId ex_reset = None"
    "srcText ex_reset = []" "dstText ex_reset = []"
    and b: "\<And>i es s''. held ex_polling i \<Longrightarrow> run es ex_reset = Some s'' \<Longrightarrow> count_list es (Fire i) = 0"
    unfolding s by auto
  have h: "held ex_polling 4" by (simp add: held_def ex_defs)
  have "run ex_late ex_reset \<noteq> None"
    by (simp add: ex_late_def ex_reset_def ex_defs run_defs)
  then obtain s3 where r: "run ex_late ex_reset = Some s3" by blast
  have t: "filter (\<lambda>x. is_final (snd x)) (timers ex_polling) = []"
    by (simp add: ex_defs is_final_def)
  show ?thesis
    using inv_ex_polling ex_reset_step a b [OF h r] h r t by simp
qed

subsection \<open>C4: the progress shown is clamped\<close>

text \<open>Claim C4. When the answer to a status request arrives, the value given to the progress
  bar is the specification's \<^verbatim>\<open>clamp(p, 0, 1)\<close> of the progress \<open>p\<close> received if
  \<open>p\<close> is finite (a missing one counts as 0), and 0 if it is not. This is what
  \<^verbatim>\<open>setProgress\<close> does with every value: a finite one is clamped, and NaN and the two
  infinities give the bar 0 and the label \<open>0%\<close>.\<close>

theorem progress_display_is_clamped:
  assumes "map_of (pending s) n = Some KPollTask"
  shows "(\<exists>s'. step (Respond n (Inr (TaskInfo t))) s = Some s'
            \<and> progressBar s' = shown_fraction (or_zero (progress t)))
         \<and> progressBar (setProgress (Num r) st s0) = clamp_spec r 0 1
         \<and> (p \<in> {PosInf, NegInf, NaN} \<longrightarrow>
               progressBar (setProgress p st s0) = 0 \<and> progressPct (setProgress p st s0) = ''0%'')"
proof -
  have "step (Respond n (Inr (TaskInfo t))) s
          = Some (pollTask_apply t (s\<lparr>pending := filter (\<lambda>e. fst e \<noteq> n) (pending s)\<rparr>))"
    using assms by simp
  then have "\<exists>s'. step (Respond n (Inr (TaskInfo t))) s = Some s'
            \<and> progressBar s' = shown_fraction (or_zero (progress t))"
    by (simp add: pollTask_apply_bar progress_val_shown)
  moreover have "progressBar (setProgress (Num r) st s0) = clamp_spec r 0 1"
    by (simp add: setProgress_def Let_def progress_val_shown shown_fraction_def)
  moreover have "progressBar (setProgress p st s0) = 0 \<and> progressPct (setProgress p st s0) = ''0%''"
    if "p \<in> {PosInf, NegInf, NaN}"
    using that by (auto simp: setProgress_def Let_def pct_text_def show_nat_0)
  ultimately show ?thesis
    by blast
qed

text \<open>The instance: a progress of 3/2 shows as 1, one of -2 as 0, NaN as 0, and infinity is
  labelled \<open>0%\<close>.\<close>

theorem progress_display_is_clamped_witness:
  "map_of (pending ex_status) 1 = Some KPollTask
   \<and> step (Respond 1 (Inr (TaskInfo ex_over))) ex_status \<noteq> None
   \<and> progressBar (the (step (Respond 1 (Inr (TaskInfo ex_over))) ex_status)) = 1
   \<and> progressBar (setProgress (Num (- 2)) ''running'' init) = 0
   \<and> progressBar (setProgress NaN ''running'' init) = 0
   \<and> progressPct (setProgress PosInf ''running'' init) = ''0%''"
proof -
  have h: "map_of (pending ex_status) 1 = Some KPollTask"
    by (simp add: ex_defs)
  note A = progress_display_is_clamped [OF h, of ex_over "- 2" "''running''" init]
  from A [of NaN] obtain s' where a: "step (Respond 1 (Inr (TaskInfo ex_over))) ex_status = Some s'"
    and b: "progressBar s' = shown_fraction (or_zero (progress ex_over))"
    by (elim conjE exE)
  from A [of NaN] have c: "progressBar (setProgress (Num (- 2)) ''running'' init) = clamp_spec (- 2) 0 1"
    by (elim conjE)
  from A [of NaN] have d: "progressBar (setProgress NaN ''running'' init) = 0"
    by simp
  from A [of PosInf] have e: "progressPct (setProgress PosInf ''running'' init) = ''0%''"
    by simp
  have v: "shown_fraction (or_zero (progress ex_over)) = 1" "clamp_spec (- 2) 0 1 = 0"
    by (simp_all add: ex_over_def shown_fraction_def clamp_spec_def)
  show ?thesis
    unfolding a option.sel b c v using h d e by simp
qed

subsection \<open>C5: the cache is the fetched list\<close>

text \<open>Claim C5 as stated fails in its first part: the code stores what it fetched, and a list
  with the same id twice is stored with the id twice. In \<open>ex_polling\<close> the answer lists
  block b7 twice.\<close>

theorem duplicate_ids_are_cached_counterexample:
  "run ex_trace init = Some ex_polling
   \<and> step (Respond 2 (Inr (Blocks [ex_b, ex_b_done]))) ex_polling \<noteq> None
   \<and> map block_id (blocksCache (the (step (Respond 2 (Inr (Blocks [ex_b, ex_b_done]))) ex_polling)))
        = [''b7'', ''b7'']
   \<and> \<not> distinct (map block_id (blocksCache (the (step (Respond 2 (Inr (Blocks [ex_b, ex_b_done]))) ex_polling))))"
  by (simp add: ex_polling_reachable) (simp add: ex_defs run_defs)

text \<open>Claim C5, amended. When a block list arrives for any \<^verbatim>\<open>refreshBlocks\<close>, the cache
  becomes that list as a whole; so it has at most one block of each id whenever the
  fetched list has.\<close>

theorem cache_is_the_snapshot:
  assumes "map_of (pending s) n = Some (KRefresh keep c)"
  shows "\<exists>s'. step (Respond n (Inr (Blocks bs))) s = Some s'
           \<and> blocksCache s' = bs
           \<and> (distinct (map block_id bs) \<longrightarrow> distinct (map block_id (blocksCache s')))"
  using assms by simp

text \<open>The instance: the one-block list arrives in \<open>ex_polling\<close>.\<close>

theorem cache_is_the_snapshot_witness:
  "map_of (pending ex_polling) 2 = Some (KRefresh True FromTick)
   \<and> distinct (map block_id [ex_b_done])
   \<and> step (Respond 2 (Inr (Blocks [ex_b_done]))) ex_polling \<noteq> None
   \<and> blocksCache (the (step (Respond 2 (Inr (Blocks [ex_b_done]))) ex_polling)) = [ex_b_done]
   \<and> distinct (map block_id (blocksCache (the (step (Respond 2 (Inr (Blocks [ex_b_done]))) ex_polling))))"
proof -
  have h: "map_of (pending ex_polling) 2 = Some (KRefresh True FromTick)"
    by (simp add: ex_defs)
  have d: "distinct (map block_id [ex_b_done])" by simp
  from cache_is_the_snapshot [OF h, of "[ex_b_done]"] d
  obtain s' where a: "step (Respond 2 (Inr (Blocks [ex_b_done]))) ex_polling = Some s'"
    and b: "blocksCache s' = [ex_b_done]" "distinct (map block_id (blocksCache s'))"
    by blast
  show ?thesis
    unfolding a option.sel using h b by simp
qed

subsection \<open>C6: a failed poll changes nothing\<close>

text \<open>Claim C6. An interval timer fires in a reachable state and its callback runs. If the
  callback sent a request and that request fails (the network, or an answer that is not
  2xx), then the state after the failure is the state before the tick but for the log of
  requests sent: display, cache, timer variables and timers are the same, so the timer
  fires again at its period. And whenever the failure of a request of the task timer or
  of the block timer arrives, in any state, nothing changes but that the request no
  longer waits.\<close>

theorem failed_poll_changes_nothing:
  assumes "inv s"
    and "map_of (timers s) i = Some (Interval cb ms)"
  shows "step (Fire i) s = Some (run_callback cb s)
         \<and> (requests (run_callback cb s) \<noteq> requests s \<longrightarrow>
              step (Respond (length (requests s)) (Inl e)) (run_callback cb s)
                = Some (s\<lparr>requests := requests (run_callback cb s)\<rparr>))
         \<and> (map_of (pending s0) n = Some k \<and> (k = KPollTask \<or> k = KRefresh True FromTick) \<longrightarrow>
              step (Respond n (Inl e)) s0 = Some (s0\<lparr>pending := filter (\<lambda>x. fst x \<noteq> n) (pending s0)\<rparr>))"
proof -
  have "step (Fire i) s = Some (run_callback cb s)"
    using assms(2) by simp
  moreover have "step (Respond (length (requests s)) (Inl e)) (run_callback cb s)
                = Some (s\<lparr>requests := requests (run_callback cb s)\<rparr>)"
    if "requests (run_callback cb s) \<noteq> requests s"
  proof -
    from run_callback_cases [of cb s] that obtain rq k where
      f: "run_callback cb s = fetch rq k s"
      and k: "k = KPollTask \<or> k = KRefresh True FromTick \<or> k = KRefresh False FromFinal"
      by auto
    have "resume k (Inl e) (s\<lparr>requests := requests s @ [rq]\<rparr>) = Some (s\<lparr>requests := requests s @ [rq]\<rparr>)"
      using k by (auto simp: refresh_failed_def)
    then show ?thesis
      unfolding f fetch_then_respond [OF assms(1)] by (simp add: fetch_def)
  qed
  moreover have "step (Respond n (Inl e)) s0 = Some (s0\<lparr>pending := filter (\<lambda>x. fst x \<noteq> n) (pending s0)\<rparr>)"
    if "map_of (pending s0) n = Some k" "k = KPollTask \<or> k = KRefresh True FromTick"
    using that by (auto simp: refresh_failed_def)
  ultimately show ?thesis by blast
qed

text \<open>The instance: in \<open>ex_polling\<close> the task timer's request fails in the network and the
  block timer's request is answered 503; either way the state is \<open>ex_polling\<close> with one
  more request in the log. The request already in flight fails too, and only stops
  waiting.\<close>

theorem failed_poll_changes_nothing_witness:
  "inv ex_polling
   \<and> map_of (timers ex_polling) 3 = Some (Interval PollTaskCb 1000)
   \<and> map_of (timers ex_polling) 4 = Some (Interval PollBlocksCb 2500)
   \<and> requests (run_callback PollTaskCb ex_polling) \<noteq> requests ex_polling
   \<and> requests (run_callback PollBlocksCb ex_polling) \<noteq> requests ex_polling
   \<and> run [Fire 3, Respond 3 (Inl (NetworkError ''offline''))] ex_polling
        = Some (ex_polling\<lparr>requests := requests ex_polling @ [GetTask ''t1'']\<rparr>)
   \<and> run [Fire 4, Respond 3 (Inl (NonOk ''503''))] ex_polling
        = Some (ex_polling\<lparr>requests := requests ex_polling @ [GetBlocks ''t1'']\<rparr>)
   \<and> map_of (pending ex_polling) 2 = Some (KRefresh True FromTick)
   \<and> step (Respond 2 (Inl (NonOk ''503''))) ex_polling = Some (ex_polling\<lparr>pending := []\<rparr>)"
proof -
  have h3: "map_of (timers ex_polling) 3 = Some (Interval PollTaskCb 1000)"
    and h4: "map_of (timers ex_polling) 4 = Some (Interval PollBlocksCb 2500)"
    and p: "map_of (pending ex_polling) 2 = Some (KRefresh True FromTick)"
    and q: "filter (\<lambda>x. fst x \<noteq> 2) (pending ex_polling) = []"
    by (simp_all add: ex_defs)
  have r3: "requests (run_callback PollTaskCb ex_polling) = requests ex_polling @ [GetTask ''t1'']"
    and r4: "requests (run_callback PollBlocksCb ex_polling) = requests ex_polling @ [GetBlocks ''t1'']"
    and l: "length (requests ex_polling) = 3"
    by (simp_all add: ex_defs refreshBlocks_def fetch_def)
  note A = failed_poll_changes_nothing [OF inv_ex_polling h3, where e = "NetworkError ''offline''"]
  note B = failed_poll_changes_nothing [OF inv_ex_polling h4, where e = "NonOk ''503''"
      and ?s0.0 = ex_polling and n = 2 and k = "KRefresh True FromTick"]
  have "run [Fire 3, Respond 3 (Inl (NetworkError ''offline''))] ex_polling
        = Some (ex_polling\<lparr>requests := requests ex_polling @ [GetTask ''t1'']\<rparr>)"
    using A unfolding r3 l by simp
  moreover have "run [Fire 4, Respond 3 (Inl (NonOk ''503''))] ex_polling
        = Some (ex_polling\<lparr>requests := requests ex_polling @ [GetBlocks ''t1'']\<rparr>)"
    using B unfolding r4 l by simp
  moreover from B p have "step (Respond 2 (Inl (NonOk ''503''))) ex_polling = Some (ex_polling\<lparr>pending := []\<rparr>)"
    unfolding q by blast
  ultimately show ?thesis
    using inv_ex_polling h3 h4 r3 r4 p by simp
qed

subsection \<open>C7: the block timer fetches only when blocks are loaded and a task exists\<close>

text \<open>Claim C7. The block timer fires. If \<^verbatim>\<open>blocksLoaded\<close> is false or there is no current
  task, the state does not change at all; and if a request was sent, \<^verbatim>\<open>blocksLoaded\<close>
  was true and a task was current. Only a click on the load button ever makes
  \<^verbatim>\<open>blocksLoaded\<close> true.\<close>

theorem block_poll_needs_loaded_and_task:
  assumes "map_of (timers s) i = Some (Interval PollBlocksCb ms)"
  shows "(\<exists>s'. step (Fire i) s = Some s'
            \<and> (\<not> blocksLoaded s \<or> \<not> truthy (currentTaskId s) \<longrightarrow> s' = s)
            \<and> (requests s' \<noteq> requests s \<longrightarrow> blocksLoaded s \<and> truthy (currentTaskId s)))
         \<and> (step e0 s0 = Some s1 \<and> blocksLoaded s1 \<and> \<not> blocksLoaded s0 \<longrightarrow> e0 = ClickLoad)"
proof -
  have "\<exists>s'. step (Fire i) s = Some s'
            \<and> (\<not> blocksLoaded s \<or> \<not> truthy (currentTaskId s) \<longrightarrow> s' = s)
            \<and> (requests s' \<noteq> requests s \<longrightarrow> blocksLoaded s \<and> truthy (currentTaskId s))"
    using assms by auto
  then show ?thesis
    using blocksLoaded_step [of e0 s0 s1] by blast
qed

text \<open>The instance: in \<open>ex_status\<close> blocks are not loaded and the tick changes nothing; in
  \<open>ex_polling\<close> they are, a task is current, and the tick sends a request.\<close>

theorem block_poll_needs_loaded_and_task_witness:
  "map_of (timers ex_status) 2 = Some (Interval PollBlocksCb 2500)
   \<and> \<not> blocksLoaded ex_status
   \<and> step (Fire 2) ex_status = Some ex_status
   \<and> map_of (timers ex_polling) 4 = Some (Interval PollBlocksCb 2500)
   \<and> step (Fire 4) ex_polling \<noteq> None
   \<and> requests (the (step (Fire 4) ex_polling)) \<noteq> requests ex_polling
   \<and> blocksLoaded ex_polling \<and> truthy (currentTaskId ex_polling)
   \<and> step ClickLoad ex_status \<noteq> None
   \<and> blocksLoaded (the (step ClickLoad ex_status))"
proof -
  have h2: "map_of (timers ex_status) 2 = Some (Interval PollBlocksCb 2500)"
    and h4: "map_of (timers ex_polling) 4 = Some (Interval PollBlocksCb 2500)"
    and n: "\<not> blocksLoaded ex_status"
    by (simp_all add: ex_defs)
  note A = block_poll_needs_loaded_and_task [OF h2, THEN conjunct1]
  note B = block_poll_needs_loaded_and_task [OF h4, THEN conjunct1]
  from A n have a: "step (Fire 2) ex_status = Some ex_status" by auto
  from B obtain s' where b: "step (Fire 4) ex_polling = Some s'"
    and c: "requests s' \<noteq> requests ex_polling \<Longrightarrow> blocksLoaded ex_polling \<and> truthy (currentTaskId ex_polling)"
    by blast
  have "requests (the (step (Fire 4) ex_polling)) \<noteq> requests ex_polling"
    by (simp add: ex_defs refreshBlocks_def fetch_def)
  then have d: "requests s' \<noteq> requests ex_polling" unfolding b by simp
  have l: "step ClickLoad ex_status \<noteq> None" "blocksLoaded (the (step ClickLoad ex_status))"
    by (simp_all add: ex_defs loadBlocks_onclick_def refreshBlocks_def fetch_def)
  show ?thesis
    unfolding b option.sel using h2 h4 n a c [OF d] d l by simp
qed

subsection \<open>C8: without a task or a selection nothing is sent\<close>

text \<open>Claim C8. The run, load, export or save button is clicked while the current task id is
  null, or the save button while the selected block id is null. Then the handler ends at
  once: the state is as before but for the message in the button's hint, and no request
  is sent and none waits that did not before.\<close>

theorem precondition_errors_send_nothing:
  assumes "currentTaskId s = None \<or> (e = ClickSave \<and> currentBlockId s = None)"
    and "e \<in> {ClickRun, ClickLoad, ClickExport, ClickSave}"
  shows "\<exists>s'. step e s = Some s'
           \<and> requests s' = requests s \<and> pending s' = pending s
           \<and> s' = (if e = ClickSave then s\<lparr>blockHint := ''Please select a block first.''\<rparr>
                    else if e = ClickLoad then s\<lparr>blockHint := ''Please create a task first.''\<rparr>
                    else s\<lparr>progressHint := ''Please create a task first.''\<rparr>)"
  using assms
  by (auto simp: runTranslate_onclick_def loadBlocks_onclick_def exportDocx_onclick_def
      saveBlock_onclick_def)

text \<open>The instance: the four buttons in the initial state, and the save button with a task
  but no block selected.\<close>

theorem precondition_errors_send_nothing_witness:
  "currentTaskId init = None
   \<and> step ClickRun init = Some (init\<lparr>progressHint := ''Please create a task first.''\<rparr>)
   \<and> step ClickLoad init = Some (init\<lparr>blockHint := ''Please create a task first.''\<rparr>)
   \<and> step ClickExport init = Some (init\<lparr>progressHint := ''Please create a task first.''\<rparr>)
   \<and> step ClickSave init = Some (init\<lparr>blockHint := ''Please select a block first.''\<rparr>)
   \<and> currentTaskId ex_status = Some ''t1'' \<and> currentBlockId ex_status = None
   \<and> step ClickSave ex_status = Some (ex_status\<lparr>blockHint := ''Please select a block first.''\<rparr>)
   \<and> requests (the (step ClickSave ex_status)) = requests ex_status
   \<and> requests (the (step ClickRun init)) = []"
proof -
  have h: "currentTaskId init = None"
    and k: "currentTaskId ex_status = Some ''t1''" "currentBlockId ex_status = None"
    and e: "requests init = []"
    by (simp_all add: init_def setProgress_def ex_defs)
  note A = precondition_errors_send_nothing [of init]
  note B = precondition_errors_send_nothing [of ex_status ClickSave]
  from A [of ClickRun] h have 1: "step ClickRun init = Some (init\<lparr>progressHint := ''Please create a task first.''\<rparr>)"
    by auto
  from A [of ClickLoad] h have 2: "step ClickLoad init = Some (init\<lparr>blockHint := ''Please create a task first.''\<rparr>)"
    by auto
  from A [of ClickExport] h have 3: "step ClickExport init = Some (init\<lparr>progressHint := ''Please create a task first.''\<rparr>)"
    by auto
  from A [of ClickSave] h have 4: "step ClickSave init = Some (init\<lparr>blockHint := ''Please select a block first.''\<rparr>)"
    by auto
  from B k have 5: "step ClickSave ex_status = Some (ex_status\<lparr>blockHint := ''Please select a block first.''\<rparr>)"
    by auto
  show ?thesis
    unfolding 1 2 3 4 5 option.sel using h k e by simp
qed

subsection \<open>C9: the last refresh does not touch the text boxes\<close>

text \<open>Claim C9. The timer that the answer \<^verbatim>\<open>finished\<close> sets is the last one of the list,
  and it runs \<^verbatim>\<open>refreshBlocks(false)\<close>. When the answer to that refresh arrives: a
  failure changes nothing; a block list replaces the cache, the counts and the rendered
  list, and nothing else. Either way both text boxes are as before, wherever the focus
  is.\<close>

theorem final_refresh_keeps_edit_buffers:
  assumes "map_of (pending s) n = Some (KRefresh False FromFinal)"
  shows "step (Respond n (Inl e)) s = Some (s\<lparr>pending := filter (\<lambda>x. fst x \<noteq> n) (pending s)\<rparr>)
       \<and> step (Respond n (Inr (Blocks bs))) s
           = Some (s\<lparr>pending := filter (\<lambda>x. fst x \<noteq> n) (pending s),
                    blocksCache := bs,
                    progressCounts := ''Blocks: '' @ show_nat (length (filter is_done bs)) @ '' / '' @ show_nat (length bs),
                    blockList := map render_item bs\<rparr>)
       \<and> (step (Respond n r) s = Some s' \<longrightarrow> srcText s' = srcText s \<and> dstText s' = dstText s)
       \<and> (map_of (timers s0) k = Some (Timeout FinalRefreshCb ms) \<longrightarrow>
             step (Fire k) s0 = Some (refreshBlocks False FromFinal (clearInterval k s0)))
       \<and> (inv s1 \<and> task_status t = Some ''finished'' \<longrightarrow>
             last (timers (pollTask_apply t s1)) = (nextTimer s1, Timeout FinalRefreshCb 300))"
proof -
  let ?s0 = "s\<lparr>pending := filter (\<lambda>x. fst x \<noteq> n) (pending s)\<rparr>"
  have a: "step (Respond n r) s = resume (KRefresh False FromFinal) r ?s0" for r
    using assms by simp
  have b: "srcText s' = srcText s \<and> dstText s' = dstText s" if "step (Respond n r) s = Some s'"
  proof -
    from that a have r: "resume (KRefresh False FromFinal) r ?s0 = Some s'" by simp
    have "edit_view s' = edit_view ?s0"
    proof (cases r)
      case (Inl e)
      with r show ?thesis by auto
    next
      case (Inr p)
      with r show ?thesis by (cases p) auto
    qed
    then show ?thesis by (simp add: edit_view_def)
  qed
  have c: "last (timers (pollTask_apply t s1)) = (nextTimer s1, Timeout FinalRefreshCb 300)"
    if "inv s1" "task_status t = Some ''finished''"
    using pollTask_apply_finished(1) [OF that] by simp
  have a1: "step (Respond n (Inl e)) s = Some ?s0"
    unfolding a by (simp add: refresh_failed_def)
  have a2: "step (Respond n (Inr (Blocks bs))) s
           = Some (s\<lparr>pending := filter (\<lambda>x. fst x \<noteq> n) (pending s),
                    blocksCache := bs,
                    progressCounts := ''Blocks: '' @ show_nat (length (filter is_done bs)) @ '' / '' @ show_nat (length bs),
                    blockList := map render_item bs\<rparr>)"
    unfolding a by (simp add: after_refresh_def refreshBlocks_apply_def Let_def)
  have d: "step (Fire k) s0 = Some (refreshBlocks False FromFinal (clearInterval k s0))"
    if "map_of (timers s0) k = Some (Timeout FinalRefreshCb ms)"
    using that by simp
  show ?thesis
    using a1 a2 b c d by blast
qed

text \<open>The instance: block b7 is open with an empty translation, nothing has the focus, and
  the last refresh brings the translation \<open>Bonjour\<close>: the list and the counts change, the
  destination box stays empty.\<close>

theorem final_refresh_keeps_edit_buffers_witness:
  "map_of (pending ex_final_wait) 4 = Some (KRefresh False FromFinal)
   \<and> currentBlockId ex_final_wait = Some ''b7'' \<and> activeElement ex_final_wait = None
   \<and> step (Respond 4 (Inr (Blocks [ex_b_done]))) ex_final_wait
        = Some (ex_final_wait\<lparr>pending := [], blocksCache := [ex_b_done],
                  progressCounts := ''Blocks: 1 / 1'', blockList := [render_item ex_b_done]\<rparr>)
   \<and> srcText (the (step (Respond 4 (Inr (Blocks [ex_b_done]))) ex_final_wait)) = ''Hello''
   \<and> dstText (the (step (Respond 4 (Inr (Blocks [ex_b_done]))) ex_final_wait)) = []
   \<and> step (Respond 4 (Inl (NonOk ''gone''))) ex_final_wait = Some (ex_final_wait\<lparr>pending := []\<rparr>)
   \<and> map_of (timers ex_stopped) 3 = Some (Timeout FinalRefreshCb 300)
   \<and> step (Fire 3) ex_stopped = Some (refreshBlocks False FromFinal (clearInterval 3 ex_stopped))
   \<and> inv ex_status \<and> task_status ex_finished = Some ''finished''
   \<and> last (timers (pollTask_apply ex_finished ex_status)) = (3, Timeout FinalRefreshCb 300)"
proof -
  have h: "map_of (pending ex_final_wait) 4 = Some (KRefresh False FromFinal)"
    and k: "currentBlockId ex_final_wait = Some ''b7''" "activeElement ex_final_wait = None"
    and f: "task_status ex_finished = Some ''finished''"
    and g: "map_of (timers ex_stopped) 3 = Some (Timeout FinalRefreshCb 300)"
    by (simp_all add: ex_final_wait_def ex_stopped_def ex_defs)
  note A = final_refresh_keeps_edit_buffers [OF h, where e = "NonOk ''gone''" and bs = "[ex_b_done]"
      and ?s0.0 = ex_stopped and k = 3 and ms = 300 and ?s1.0 = ex_status and t = ex_finished]
  have v: "filter (\<lambda>x. fst x \<noteq> 4) (pending ex_final_wait) = []"
    "''Blocks: '' @ show_nat (length (filter is_done [ex_b_done])) @ '' / '' @ show_nat (length [ex_b_done]) = ''Blocks: 1 / 1''"
    "srcText ex_final_wait = ''Hello''" "dstText ex_final_wait = []" "nextTimer ex_status = 3"
    by (simp_all add: ex_final_wait_def ex_defs is_done_def)
  from A have 1: "step (Respond 4 (Inl (NonOk ''gone''))) ex_final_wait = Some (ex_final_wait\<lparr>pending := []\<rparr>)"
    unfolding v by simp
  from A have 2: "step (Respond 4 (Inr (Blocks [ex_b_done]))) ex_final_wait
        = Some (ex_final_wait\<lparr>pending := [], blocksCache := [ex_b_done],
                  progressCounts := ''Blocks: 1 / 1'', blockList := [render_item ex_b_done]\<rparr>)"
    unfolding v by simp
  from A inv_ex_status f
  have 3: "last (timers (pollTask_apply ex_finished ex_status)) = (3, Timeout FinalRefreshCb 300)"
    unfolding v(5) [symmetric] by blast
  from A g have 4: "step (Fire 3) ex_stopped = Some (refreshBlocks False FromFinal (clearInterval 3 ex_stopped))"
    by blast
  show ?thesis
    unfolding 1 2 3 4 option.sel using h k f g inv_ex_status v(3,4) by simp
qed

subsection \<open>C10: a failed upload keeps the reset and the old task id\<close>

text \<open>Claim C10. The upload button is clicked with a file chosen, in a reachable state, and
  the upload fails. Then nothing of the reset is undone: both timer variables are null and
  no interval timer is set, the cache is empty, \<^verbatim>\<open>blocksLoaded\<close> is false, no block is
  selected, both text boxes are empty, and the failure is shown in the task hint. The
  current task id is the one from before the click, so a run-translate clicked next is
  sent for that task.\<close>

theorem failed_upload_keeps_the_reset:
  assumes "inv s"
  shows "\<exists>s1 s'. step (ClickCreate (Some f) d) s = Some s1
           \<and> step (Respond (length (requests s)) (Inl e)) s1 = Some s'
           \<and> currentTaskId s' = currentTaskId s
           \<and> pollTaskTimer s' = None \<and> pollBlocksTimer s' = None
           \<and> timers s' = filter (\<lambda>x. is_final (snd x)) (timers s)
           \<and> blocksCache s' = [] \<and> \<not> blocksLoaded s' \<and> currentBlockId s' = None
           \<and> srcText s' = [] \<and> dstText s' = []
           \<and> taskHint s' = err_text e
           \<and> (truthy (currentTaskId s) \<longrightarrow>
                step ClickRun s' = Some (fetch (PostRunTranslate (the (currentTaskId s))) KRun s'))"
proof -
  let ?s1 = "fetch (PostTasks f d) KCreate (createTask_reset s)"
  let ?s' = "(createTask_reset s)\<lparr>requests := requests s @ [PostTasks f d], taskHint := err_text e\<rparr>"
  have i: "inv (createTask_reset s)" by (rule inv_createTask_reset [OF assms])
  have l: "length (requests (createTask_reset s)) = length (requests s)"
    by (simp add: createTask_reset_eq)
  have 1: "step (ClickCreate (Some f) d) s = Some ?s1"
    by (simp add: createTask_onclick_def)
  have 2: "step (Respond (length (requests s)) (Inl e)) ?s1 = Some ?s'"
    using fetch_then_respond [OF i, of "Inl e" "PostTasks f d" KCreate]
    by (simp add: l) (simp add: createTask_reset_eq)
  have 3: "timers ?s' = filter (\<lambda>x. is_final (snd x)) (timers s)"
    by (simp add: createTask_reset_timers [OF assms])
  have 4: "step ClickRun ?s' = Some (fetch (PostRunTranslate (the (currentTaskId s))) KRun ?s')"
    if "truthy (currentTaskId s)"
    using that by (simp add: runTranslate_onclick_def createTask_reset_eq)
  have 5: "currentTaskId ?s' = currentTaskId s" "pollTaskTimer ?s' = None" "pollBlocksTimer ?s' = None"
    "blocksCache ?s' = []" "\<not> blocksLoaded ?s'" "currentBlockId ?s' = None"
    "srcText ?s' = []" "dstText ?s' = []" "taskHint ?s' = err_text e"
    by (simp_all add: createTask_reset_eq)
  show ?thesis
    using 1 2 3 4 5 by blast
qed

text \<open>The instance: the second upload in \<open>ex_polling\<close> fails; the task is still t1.\<close>

theorem failed_upload_keeps_the_reset_witness:
  "inv ex_polling
   \<and> currentTaskId ex_polling = Some ''t1''
   \<and> run [ex_new_upload, Respond 3 (Inl (NonOk ''bad file''))] ex_polling
        = Some (ex_reset\<lparr>taskHint := ''bad file'', pending := [(2, KRefresh True FromTick)]\<rparr>)
   \<and> step ClickRun (ex_reset\<lparr>taskHint := ''bad file'', pending := [(2, KRefresh True FromTick)]\<rparr>)
        = Some (fetch (PostRunTranslate ''t1'') KRun
                 (ex_reset\<lparr>taskHint := ''bad file'', pending := [(2, KRefresh True FromTick)]\<rparr>))"
proof -
  let ?s' = "ex_reset\<lparr>taskHint := ''bad file'', pending := [(2, KRefresh True FromTick)]\<rparr>"
  have t: "currentTaskId ex_polling = Some ''t1''" "length (requests ex_polling) = 3"
    by (simp_all add: ex_defs)
  have r: "run [ex_new_upload, Respond 3 (Inl (NonOk ''bad file''))] ex_polling = Some ?s'"
    by (simp add: ex_reset_step) (simp add: ex_reset_def ex_defs)
  from failed_upload_keeps_the_reset [OF inv_ex_polling, of "''b.docx''" "''en-fr''" "NonOk ''bad file''"]
  obtain s1 s' where a: "step (ClickCreate (Some ''b.docx'') ''en-fr'') ex_polling = Some s1"
    and b: "step (Respond (length (requests ex_polling)) (Inl (NonOk ''bad file''))) s1 = Some s'"
    and c: "truthy (currentTaskId ex_polling) \<longrightarrow>
              step ClickRun s' = Some (fetch (PostRunTranslate (the (currentTaskId ex_polling))) KRun s')"
    by blast
  from a b r have "s' = ?s'"
    by (simp add: ex_new_upload_def t)
  with c t have "step ClickRun ?s' = Some (fetch (PostRunTranslate ''t1'') KRun ?s')"
    by simp
  then show ?thesis
    using inv_ex_polling t(1) r by simp
qed

end
